theory Spec2Isabelle
  imports Complex_Main "HOL-Library.AList"
begin

section \<open>Python values: errors, strings, dictionaries\<close>

text \<open>
  The analysis functions of \<^verbatim>\<open>GitLens/api.py\<close> and \<^verbatim>\<open>GitLens/analytics.py\<close> read the
  textual output of git commands and aggregate it in dictionaries. A raised exception is a
  value \<open>Inl e\<close>; a returned value is \<open>Inr v\<close>. A Python \<^verbatim>\<open>dict\<close> is an association list in
  insertion order with distinct keys: \<open>map_of\<close> reads it, \<open>AList.update\<close> assigns to a key
  (in place when the key is present, at the end otherwise), as \<^verbatim>\<open>d[k] = v\<close> does.
\<close>

datatype error =
    RuntimeError string   \<comment> \<open>raised by \<^verbatim>\<open>_run_git_command\<close> when git fails\<close>
  | ValueError string     \<comment> \<open>\<^verbatim>\<open>int(line)\<close> on a non-number, a year out of range, an unknown period\<close>
  | OverflowError         \<comment> \<open>\<^verbatim>\<open>fromtimestamp\<close> on a timestamp outside \<^verbatim>\<open>time_t\<close>\<close>
  | OSError               \<comment> \<open>\<^verbatim>\<open>fromtimestamp\<close> when the platform's \<^verbatim>\<open>localtime\<close> fails\<close>

type_synonym ('k, 'v) dict = "('k \<times> 'v) list"

text \<open>\<^verbatim>\<open>d.get(k, default)\<close>.\<close>

definition dict_get :: "('k, 'v) dict \<Rightarrow> 'k \<Rightarrow> 'v \<Rightarrow> 'v" where
  "dict_get d k dflt = (case map_of d k of None \<Rightarrow> dflt | Some v \<Rightarrow> v)"

subsection \<open>Strings\<close>

text \<open>
  Strings are lists of 8-bit characters. \<^verbatim>\<open>str.strip\<close>, \<^verbatim>\<open>str.splitlines\<close> and
  \<^verbatim>\<open>str.lower\<close> are modelled on ASCII: the white space characters are 0x09-0x0D, 0x1C-0x1F
  and the blank, the line boundaries are LF, CR, CR LF, VT, FF, FS, GS and RS.
\<close>

definition is_space :: "char \<Rightarrow> bool" where
  "is_space c = (let n = (of_char c :: nat) in (9 \<le> n \<and> n \<le> 13) \<or> (28 \<le> n \<and> n \<le> 32))"

definition strip :: "string \<Rightarrow> string" where
  "strip s = rev (dropWhile is_space (rev (dropWhile is_space s)))"

definition is_linebreak :: "char \<Rightarrow> bool" where
  "is_linebreak c = (let n = (of_char c :: nat) in (10 \<le> n \<and> n \<le> 13) \<or> (28 \<le> n \<and> n \<le> 30))"

fun splitlines_from :: "string \<Rightarrow> string \<Rightarrow> string list" where
  "splitlines_from cur [] = (if cur = [] then [] else [rev cur])"
| "splitlines_from cur [c] =
     (if is_linebreak c then [rev cur] else [rev (c # cur)])"
| "splitlines_from cur (c # d # s) =
     (if c = CHR 0x0D \<and> d = CHR 0x0A then rev cur # splitlines_from [] s
      else if is_linebreak c then rev cur # splitlines_from [] (d # s)
      else splitlines_from (c # cur) (d # s))"

definition splitlines :: "string \<Rightarrow> string list" where
  "splitlines s = splitlines_from [] s"

text \<open>\<^verbatim>\<open>s.startswith(p)\<close> and \<^verbatim>\<open>p in s\<close> (substring).\<close>

definition startswith :: "string \<Rightarrow> string \<Rightarrow> bool" where
  "startswith s p = (take (length p) s = p)"

fun contains :: "string \<Rightarrow> string \<Rightarrow> bool" where
  "contains [] p = (p = [])"
| "contains (c # s) p = (startswith (c # s) p \<or> contains s p)"

definition lower_char :: "char \<Rightarrow> char" where
  "lower_char c = (let n = (of_char c :: nat) in if 65 \<le> n \<and> n \<le> 90 then char_of (n + 32) else c)"

definition lower :: "string \<Rightarrow> string" where
  "lower s = map lower_char s"

text \<open>\<^verbatim>\<open>s.split(sep)\<close> for a one-character separator: never the empty list.\<close>

fun split_from :: "char \<Rightarrow> string \<Rightarrow> string \<Rightarrow> string list" where
  "split_from sep cur [] = [rev cur]"
| "split_from sep cur (c # s) =
     (if c = sep then rev cur # split_from sep [] s else split_from sep (c # cur) s)"

definition split :: "string \<Rightarrow> char \<Rightarrow> string list" where
  "split s sep = split_from sep [] s"

text \<open>\<^verbatim>\<open>s.rfind(c)\<close>: the index of the last occurrence, or \<open>-1\<close>.\<close>

definition rfind :: "string \<Rightarrow> char \<Rightarrow> int" where
  "rfind s c =
     (if c \<in> set s then int (length s) - 1 - int (length (takeWhile (\<lambda>x. x \<noteq> c) (rev s)))
      else - 1)"

text \<open>
  \<^verbatim>\<open>os.path.splitext\<close> on POSIX (\<^verbatim>\<open>genericpath._splitext\<close> with separator \<^verbatim>\<open>/\<close>): the
  extension starts at the last dot of the last path component, unless that component has
  only dots before it.
\<close>

definition splitext :: "string \<Rightarrow> string \<times> string" where
  "splitext p =
     (let sepIndex = rfind p (CHR ''/''); dotIndex = rfind p (CHR ''.'') in
      if dotIndex > sepIndex then
        (if list_ex (\<lambda>c. c \<noteq> CHR ''.'')
              (take (nat (dotIndex - (sepIndex + 1))) (drop (nat (sepIndex + 1)) p))
         then (take (nat dotIndex) p, drop (nat dotIndex) p)
         else (p, []))
      else (p, []))"

subsection \<open>Numbers and text\<close>

text \<open>
  \<^verbatim>\<open>int(s)\<close> on a string: white space around, an optional sign, decimal digits with single
  underscores between them; anything else raises \<^verbatim>\<open>ValueError\<close>. On an ASCII string the
  white space of \<^verbatim>\<open>int\<close> is 0x09-0x0D and the blank only: unlike \<^verbatim>\<open>str.strip\<close> it does not
  skip 0x1C-0x1F.
\<close>

definition is_digit :: "char \<Rightarrow> bool" where
  "is_digit c = (let n = (of_char c :: nat) in 48 \<le> n \<and> n \<le> 57)"

definition digit_val :: "char \<Rightarrow> int" where
  "digit_val c = int (of_char c) - 48"

fun digits_value :: "int \<Rightarrow> string \<Rightarrow> int option" where
  "digits_value acc [] = Some acc"
| "digits_value acc (c # s) =
     (if is_digit c then digits_value (10 * acc + digit_val c) s
      else if c = CHR ''_'' \<and> s \<noteq> [] \<and> is_digit (hd s) then digits_value acc s
      else None)"

definition parse_digits :: "string \<Rightarrow> int option" where
  "parse_digits s = (if s \<noteq> [] \<and> is_digit (hd s) then digits_value 0 s else None)"

definition is_int_space :: "char \<Rightarrow> bool" where
  "is_int_space c = (let n = (of_char c :: nat) in (9 \<le> n \<and> n \<le> 13) \<or> n = 32)"

definition py_int :: "string \<Rightarrow> error + int" where
  "py_int s =
     (let t = rev (dropWhile is_int_space (rev (dropWhile is_int_space s)));
          neg = (t \<noteq> [] \<and> hd t = CHR ''-'');
          body = (if t \<noteq> [] \<and> (hd t = CHR ''-'' \<or> hd t = CHR ''+'') then tl t else t)
      in case parse_digits body of
           None \<Rightarrow> Inl (ValueError s)
         | Some n \<Rightarrow> Inr (if neg then - n else n))"

text \<open>\<^verbatim>\<open>str(n)\<close> on an integer.\<close>

definition digit_char :: "int \<Rightarrow> char" where
  "digit_char d = char_of (48 + d)"

function str_digits :: "int \<Rightarrow> string" where
  "str_digits n =
     (if n < 10 then [digit_char n] else str_digits (n div 10) @ [digit_char (n mod 10)])"
  by pat_completeness auto
termination
  by (relation "measure nat") (auto intro: int_div_less_self)

declare str_digits.simps [simp del]

definition str_int :: "int \<Rightarrow> string" where
  "str_int i = (if i < 0 then CHR ''-'' # str_digits (- i) else str_digits i)"

text \<open>The text git prints for a list of lines: the lines joined by line feeds.\<close>

fun git_output :: "string list \<Rightarrow> string" where
  "git_output [] = []"
| "git_output [l] = l"
| "git_output (l # ls) = l @ CHR 0x0A # git_output ls"

subsection \<open>Loops that may raise\<close>

text \<open>A \<^verbatim>\<open>for\<close> loop over a list whose body may raise: the first exception ends it.\<close>

fun for_loop :: "('s \<Rightarrow> 'a \<Rightarrow> error + 's) \<Rightarrow> 'a list \<Rightarrow> 's \<Rightarrow> error + 's" where
  "for_loop body [] s = Inr s"
| "for_loop body (x # xs) s =
     (case body s x of Inl e \<Rightarrow> Inl e | Inr s' \<Rightarrow> for_loop body xs s')"

text \<open>A list comprehension \<^verbatim>\<open>[f(x) for x in xs]\<close> whose \<^verbatim>\<open>f\<close> may raise.\<close>

fun comprehension :: "('a \<Rightarrow> error + 'b) \<Rightarrow> 'a list \<Rightarrow> error + 'b list" where
  "comprehension f [] = Inr []"
| "comprehension f (x # xs) =
     (case f x of
        Inl e \<Rightarrow> Inl e
      | Inr y \<Rightarrow> (case comprehension f xs of Inl e \<Rightarrow> Inl e | Inr ys \<Rightarrow> Inr (y # ys)))"

section \<open>The repository: \<^verbatim>\<open>api.Repository\<close>\<close>

text \<open>
  Git is outside the program: \<^verbatim>\<open>_run_git_command\<close> is a parameter \<open>run_git\<close> that maps the
  argument list to the text git prints, or to the \<^verbatim>\<open>RuntimeError\<close> it raises.
\<close>

type_synonym git = "string list \<Rightarrow> error + string"

record FileChangeFrequency =
  path :: string
  change_count :: int
  last_modified :: int
  authors :: "string list"
  primary_owner :: "string option"

text \<open>\<^verbatim>\<open>Repository.list_tracked\<close> (api.py, lines 201-204).\<close>

definition list_tracked :: "git \<Rightarrow> error + string list" where
  "list_tracked run_git =
     (case run_git [''ls-files''] of
        Inl e \<Rightarrow> Inl e
      | Inr output \<Rightarrow> Inr (map strip (filter (\<lambda>line. strip line \<noteq> []) (splitlines output))))"

text \<open>
  \<^verbatim>\<open>Repository.analyze_change_frequency\<close> (api.py, lines 414-482). The variables of its
  loop over the lines of \<^verbatim>\<open>git log --name-only --pretty=format:%an%n%at\<close>:
\<close>

record frequency_vars =
  f_change_counts :: "(string, int) dict"
  f_last_modified :: "(string, int) dict"
  f_file_authors :: "(string, (string, int) dict) dict"
  f_current_author :: "string option"
  f_current_timestamp :: "int option"

definition frequency_init :: frequency_vars where
  "frequency_init =
     \<lparr>f_change_counts = [], f_last_modified = [], f_file_authors = [],
      f_current_author = None, f_current_timestamp = None\<rparr>"

text \<open>The branch of the loop body for a file path (lines 439-456).\<close>

definition frequency_touch :: "frequency_vars \<Rightarrow> string \<Rightarrow> int \<Rightarrow> string \<Rightarrow> frequency_vars" where
  "frequency_touch v author timestamp p =
     (let by_author = dict_get (f_file_authors v) p []
      in v\<lparr>f_change_counts :=
             AList.update p (dict_get (f_change_counts v) p 0 + 1) (f_change_counts v),
           f_last_modified :=
             (case map_of (f_last_modified v) p of
                None \<Rightarrow> AList.update p timestamp (f_last_modified v)
              | Some t \<Rightarrow>
                  if timestamp > t then AList.update p timestamp (f_last_modified v)
                  else f_last_modified v),
           f_file_authors :=
             AList.update p (AList.update author (dict_get by_author author 0 + 1) by_author)
               (f_file_authors v)\<rparr>)"

definition frequency_step :: "frequency_vars \<Rightarrow> string \<Rightarrow> error + frequency_vars" where
  "frequency_step v line =
     (if strip line = [] then Inr (v\<lparr>f_current_author := None, f_current_timestamp := None\<rparr>)
      else case f_current_author v of
        None \<Rightarrow> Inr (v\<lparr>f_current_author := Some line\<rparr>)
      | Some author \<Rightarrow>
          (case f_current_timestamp v of
             None \<Rightarrow>
               (case py_int line of
                  Inl e \<Rightarrow> Inl e
                | Inr t \<Rightarrow> Inr (v\<lparr>f_current_timestamp := Some t\<rparr>))
           | Some timestamp \<Rightarrow> Inr (frequency_touch v author timestamp line)))"

text \<open>The search for the primary owner (lines 464-469), over the items of one path.\<close>

definition owner_step :: "string option \<times> int \<Rightarrow> string \<times> int \<Rightarrow> string option \<times> int" where
  "owner_step pm ac =
     (if snd ac > snd pm then (Some (fst ac), snd ac) else pm)"

definition find_primary_owner :: "(string, int) dict \<Rightarrow> string option" where
  "find_primary_owner by_author = fst (foldl owner_step (None, 0) by_author)"

definition frequency_entry :: "frequency_vars \<Rightarrow> string \<times> int \<Rightarrow> FileChangeFrequency" where
  "frequency_entry v pc =
     \<lparr>path = fst pc, change_count = snd pc,
      last_modified = dict_get (f_last_modified v) (fst pc) 0,
      authors = map fst (dict_get (f_file_authors v) (fst pc) []),
      primary_owner = find_primary_owner (dict_get (f_file_authors v) (fst pc) [])\<rparr>"

definition frequency_args :: "string option \<Rightarrow> string list" where
  "frequency_args path_filter =
     [''log'', ''--name-only'', ''--pretty=format:%an%n%at'']
       @ (case path_filter of None \<Rightarrow> [] | Some p \<Rightarrow> [''--'', p])"

text \<open>
  \<^verbatim>\<open>result.sort(key=..., reverse=True)\<close> is a stable sort in descending order: \<open>sort_key\<close>
  on the negated key.
\<close>

definition analyze_change_frequency :: "git \<Rightarrow> string option \<Rightarrow> error + FileChangeFrequency list" where
  "analyze_change_frequency run_git path_filter =
     (case run_git (frequency_args path_filter) of
        Inl e \<Rightarrow> Inl e
      | Inr output \<Rightarrow>
          (case for_loop frequency_step (splitlines output) frequency_init of
             Inl e \<Rightarrow> Inl e
           | Inr v \<Rightarrow>
               Inr (sort_key (\<lambda>e. - change_count e)
                      (map (frequency_entry v) (f_change_counts v)))))"

text \<open>
  An invariant of the loop of \<^verbatim>\<open>analyze_change_frequency\<close>: every path counted in
  \<^verbatim>\<open>change_counts\<close> has an entry in \<^verbatim>\<open>file_authors\<close>, and every such entry is a
  non-empty dictionary of positive counts.
\<close>

definition authors_recorded :: "frequency_vars \<Rightarrow> bool" where
  "authors_recorded v =
     ((\<forall>p d. map_of (f_file_authors v) p = Some d \<longrightarrow>
         d \<noteq> [] \<and> (\<forall>ac \<in> set d. 0 < snd ac) \<and> distinct (map fst d)) \<and>
      fst ` set (f_change_counts v) \<subseteq> dom (map_of (f_file_authors v)))"

text \<open>
  For stating what the loop counts: a commit of the log is its author line, its timestamp
  line and the paths it lists. Git prints a blank line between two commits only when the
  first of them lists a file; \<open>commit_block\<close> is the lines of such a commit with the blank
  line after it, and \<open>touch_authors q\<close> is the author of every listing of the path \<open>q\<close>, in
  the order of the log.
\<close>

definition commit_block :: "string \<times> string \<times> string list \<Rightarrow> string list" where
  "commit_block ev = fst ev # fst (snd ev) # snd (snd ev) @ [[]]"

definition touch_authors :: "string \<Rightarrow> (string \<times> string \<times> string list) list \<Rightarrow> string list" where
  "touch_authors q events =
     concat (map (\<lambda>ev. map (\<lambda>p. fst ev) (filter (\<lambda>p. p = q) (snd (snd ev)))) events)"

section \<open>The knowledge map\<close>

text \<open>
  \<^verbatim>\<open>Analytics.analyze_knowledge_map\<close> exists twice, in \<^verbatim>\<open>analytics.py\<close> (lines 507-563, the
  Python fallback after the optional native call) and in \<^verbatim>\<open>api.py\<close> (lines 807-855). Both
  take the result of \<^verbatim>\<open>repo.analyze_code_ownership()\<close>, a dictionary with the two entries
  \<^verbatim>\<open>files\<close> and \<^verbatim>\<open>directories\<close>, each from a path to the line count of every author. The
  quotient \<^verbatim>\<open>total_lines / total * 100\<close> is a rational number here (exact arithmetic), a
  float in Python.
\<close>

record ownership =
  ownership_files :: "(string, (string, int) dict) dict"
  ownership_directories :: "(string, (string, int) dict) dict"

record AuthorExpertise =
  files :: "(string, int) dict"
  directories :: "(string, int) dict"
  languages :: "(string, int) dict"
  total_lines :: int
  repository_contribution :: rat

text \<open>The language key of a path in \<^verbatim>\<open>analytics.py\<close> (line 516).\<close>

definition analytics_extension :: "string \<Rightarrow> string" where
  "analytics_extension p =
     (if CHR ''.'' \<in> set p then last (split (lower p) (CHR ''.'')) else ''unknown'')"

text \<open>The language key of a path in \<^verbatim>\<open>api.py\<close> (lines 815-819).\<close>

definition api_extension :: "string \<Rightarrow> string" where
  "api_extension p =
     (let extension = lower (snd (splitext p)) in
      if extension = [] then ''unknown'' else drop 1 extension)"

definition new_expertise :: AuthorExpertise where
  "new_expertise =
     \<lparr>files = [], directories = [], languages = [], total_lines = 0,
      repository_contribution = 0\<rparr>"

text \<open>The body of the inner loop over \<^verbatim>\<open>authors.items()\<close> of one file.\<close>

definition file_author_step ::
  "string \<Rightarrow> string \<Rightarrow> (string, AuthorExpertise) dict \<Rightarrow> string \<times> int
    \<Rightarrow> (string, AuthorExpertise) dict" where
  "file_author_step p extension expertise_map al =
     (let author = fst al; line_count = snd al;
          expertise = dict_get expertise_map author new_expertise;
          expertise' = expertise
            \<lparr>files := AList.update p line_count (files expertise),
             total_lines := total_lines expertise + line_count,
             languages := AList.update extension
               (dict_get (languages expertise) extension 0 + line_count) (languages expertise)\<rparr>
      in AList.update author expertise' expertise_map)"

definition file_step ::
  "(string \<Rightarrow> string) \<Rightarrow> (string, AuthorExpertise) dict \<Rightarrow> string \<times> (string, int) dict
    \<Rightarrow> (string, AuthorExpertise) dict" where
  "file_step ext expertise_map pa =
     foldl (file_author_step (fst pa) (ext (fst pa))) expertise_map (snd pa)"

text \<open>The loop over \<^verbatim>\<open>ownership['directories']\<close>: only authors already in the map.\<close>

definition dir_author_step ::
  "string \<Rightarrow> (string, AuthorExpertise) dict \<Rightarrow> string \<times> int
    \<Rightarrow> (string, AuthorExpertise) dict" where
  "dir_author_step dir_path expertise_map al =
     (case map_of expertise_map (fst al) of
        None \<Rightarrow> expertise_map
      | Some expertise \<Rightarrow>
          AList.update (fst al)
            (expertise\<lparr>directories := AList.update dir_path (snd al) (directories expertise)\<rparr>)
            expertise_map)"

definition dir_step ::
  "(string, AuthorExpertise) dict \<Rightarrow> string \<times> (string, int) dict
    \<Rightarrow> (string, AuthorExpertise) dict" where
  "dir_step expertise_map da = foldl (dir_author_step (fst da)) expertise_map (snd da)"

text \<open>\<^verbatim>\<open>sum(data['total_lines'] for data in expertise_map.values())\<close>.\<close>

definition sum_total_lines :: "(string, AuthorExpertise) dict \<Rightarrow> int" where
  "sum_total_lines expertise_map = sum_list (map (\<lambda>ae. total_lines (snd ae)) expertise_map)"

definition set_contribution :: "int \<Rightarrow> string \<times> AuthorExpertise \<Rightarrow> string \<times> AuthorExpertise" where
  "set_contribution all_lines ae =
     (fst ae, (snd ae)\<lparr>repository_contribution :=
        (if all_lines > 0 then (of_int (total_lines (snd ae)) / of_int all_lines) * 100
         else 0)\<rparr>)"

text \<open>
  The two functions differ in the language key only, so they share the loops, which take
  the key function.
\<close>

definition knowledge_map :: "(string \<Rightarrow> string) \<Rightarrow> ownership \<Rightarrow> (string, AuthorExpertise) dict" where
  "knowledge_map ext own =
     (let m1 = foldl (file_step ext) [] (ownership_files own);
          m2 = foldl dir_step m1 (ownership_directories own)
      in map (set_contribution (sum_total_lines m2)) m2)"

definition analytics_analyze_knowledge_map :: "ownership \<Rightarrow> (string, AuthorExpertise) dict" where
  "analytics_analyze_knowledge_map own = knowledge_map analytics_extension own"

definition api_analyze_knowledge_map :: "ownership \<Rightarrow> (string, AuthorExpertise) dict" where
  "api_analyze_knowledge_map own = knowledge_map api_extension own"

section \<open>The analytics: \<^verbatim>\<open>analytics.Analytics\<close>\<close>

text \<open>
  The functions of \<^verbatim>\<open>analytics.py\<close> first try a native implementation when the wrapped
  repository object has one; the compiled extension is not part of the sources, and the
  functions below are the Python implementations they fall back to. The class
  \<^verbatim>\<open>Repository\<close> that \<^verbatim>\<open>analytics.py\<close> imports (\<^verbatim>\<open>repository.py\<close>) is not part of the
  sources either: what its methods \<^verbatim>\<open>analyze_change_frequency\<close> and \<^verbatim>\<open>list_tracked\<close>
  return is a parameter of the functions that call them, and \<^verbatim>\<open>repo._repo._run_git_command\<close>
  is the parameter \<open>run_git\<close>.
\<close>

datatype TimePeriod = HOUR | DAY | WEEK | MONTH | YEAR

record AnalyticsOptions =
  max_commits :: "int option"
  skip_commits :: "int option"
  include_merges :: bool
  author_filter :: "string option"
  path_filter :: "string option"
  since_date :: "int option"
  until_date :: "int option"

text \<open>The default options, \<^verbatim>\<open>AnalyticsOptions()\<close>.\<close>

definition default_options :: AnalyticsOptions where
  "default_options =
     \<lparr>max_commits = None, skip_commits = None, include_merges = True, author_filter = None,
      path_filter = None, since_date = None, until_date = None\<rparr>"

text \<open>
  \<^verbatim>\<open>if options.x: args.extend([flag, ...])\<close>: an option is passed on when it is truthy,
  that is neither \<^verbatim>\<open>None\<close> nor \<open>0\<close> nor the empty string.
\<close>

definition int_flag :: "string \<Rightarrow> string \<Rightarrow> int option \<Rightarrow> string list" where
  "int_flag flag prefix x =
     (case x of None \<Rightarrow> [] | Some n \<Rightarrow> if n = 0 then [] else [flag, prefix @ str_int n])"

definition str_flag :: "string \<Rightarrow> string option \<Rightarrow> string list" where
  "str_flag flag x =
     (case x of None \<Rightarrow> [] | Some s \<Rightarrow> if s = [] then [] else [flag, s])"

subsection \<open>Local time and the ISO calendar\<close>

text \<open>
  \<^verbatim>\<open>datetime.fromtimestamp\<close> gives the local time of the process: the parameter
  \<open>utcoffset\<close> maps a timestamp to the offset of local time from UTC at that moment, in
  seconds. The proleptic Gregorian calendar follows CPython's \<^verbatim>\<open>datetime\<close> module
  (\<^verbatim>\<open>_ord2ymd\<close>, \<^verbatim>\<open>_ymd2ord\<close>, \<^verbatim>\<open>_isoweek1monday\<close>, \<^verbatim>\<open>isocalendar\<close>); day 1 is
  0001-01-01, and 1970-01-01 is day 719163.
\<close>

record datetime =
  year :: int
  month :: int
  day :: int
  hour :: int
  minute :: int
  second :: int

definition is_leap :: "int \<Rightarrow> bool" where
  "is_leap y = (y mod 4 = 0 \<and> (y mod 100 \<noteq> 0 \<or> y mod 400 = 0))"

definition DAYS_IN_MONTH :: "int list" where
  "DAYS_IN_MONTH = [- 1, 31, 28, 31, 30, 31, 30, 31, 31, 30, 31, 30, 31]"

definition DAYS_BEFORE_MONTH :: "int list" where
  "DAYS_BEFORE_MONTH = [- 1, 0, 31, 59, 90, 120, 151, 181, 212, 243, 273, 304, 334]"

definition days_before_year :: "int \<Rightarrow> int" where
  "days_before_year y = (let y1 = y - 1 in y1 * 365 + y1 div 4 - y1 div 100 + y1 div 400)"

definition days_before_month :: "int \<Rightarrow> int \<Rightarrow> int" where
  "days_before_month y m =
     DAYS_BEFORE_MONTH ! nat m + (if m > 2 \<and> is_leap y then 1 else 0)"

definition ymd2ord :: "int \<Rightarrow> int \<Rightarrow> int \<Rightarrow> int" where
  "ymd2ord y m d = days_before_year y + days_before_month y m + d"

definition ord2ymd :: "int \<Rightarrow> int \<times> int \<times> int" where
  "ord2ymd ordinal =
     (let n = ordinal - 1;
          n400 = n div 146097; na = n mod 146097;
          n100 = na div 36524; nb = na mod 36524;
          n4 = nb div 1461; nc = nb mod 1461;
          n1 = nc div 365; nd = nc mod 365;
          y = n400 * 400 + 1 + n100 * 100 + n4 * 4 + n1
      in if n1 = 4 \<or> n100 = 4 then (y - 1, 12, 31)
         else
           (let leapyear = (n1 = 3 \<and> (n4 \<noteq> 24 \<or> n100 = 3));
                m = (nd + 50) div 32;
                preceding = DAYS_BEFORE_MONTH ! nat m + (if m > 2 \<and> leapyear then 1 else 0)
            in if preceding > nd
               then (y, m - 1,
                     nd - (preceding - (DAYS_IN_MONTH ! nat (m - 1)
                             + (if m - 1 = 2 \<and> leapyear then 1 else 0))) + 1)
               else (y, m, nd - preceding + 1)))"

text \<open>
  The platform's \<^verbatim>\<open>localtime\<close> on a 64-bit POSIX system, followed by the range check of
  CPython's \<^verbatim>\<open>utc_to_seconds\<close>: a timestamp outside 64 bits is an \<^verbatim>\<open>OverflowError\<close>, a
  local year that does not fit \<^verbatim>\<open>tm_year\<close> (32 bits, counted from 1900) an \<^verbatim>\<open>OSError\<close>,
  any other year outside 1 to 9999 a \<^verbatim>\<open>ValueError\<close>.
\<close>

definition localtime :: "(int \<Rightarrow> int) \<Rightarrow> int \<Rightarrow> error + datetime" where
  "localtime utcoffset t =
     (if t < - (2 ^ 63) \<or> 2 ^ 63 \<le> t then Inl OverflowError
      else
        (let local = t + utcoffset t; secs = local mod 86400
         in case ord2ymd (local div 86400 + 719163) of
           (y, m, d) \<Rightarrow>
             if y - 1900 < - (2 ^ 31) \<or> 2 ^ 31 \<le> y - 1900 then Inl OSError
             else if y < 1 \<or> 9999 < y then Inl (ValueError ''year is out of range'')
             else Inr \<lparr>year = y, month = m, day = d, hour = secs div 3600,
                       minute = secs mod 3600 div 60, second = secs mod 60\<rparr>))"

text \<open>
  \<^verbatim>\<open>datetime.fromtimestamp(timestamp)\<close> without a time zone
  (\<^verbatim>\<open>datetime_from_timet_and_us\<close>): after the local time of the timestamp, CPython looks
  for a repeated hour (the \<^verbatim>\<open>fold\<close>) at the local time one day before and, when the
  offset has gone down within that day, once more in between; each of these must lie within
  the years 1 to 9999 as well. So the first local day of year 1 is an error.
\<close>

definition fromtimestamp :: "(int \<Rightarrow> int) \<Rightarrow> int \<Rightarrow> error + datetime" where
  "fromtimestamp utcoffset timestamp =
     (case localtime utcoffset timestamp of
        Inl e \<Rightarrow> Inl e
      | Inr dt \<Rightarrow>
          (case localtime utcoffset (timestamp - 86400) of
             Inl e \<Rightarrow> Inl e
           | Inr probe \<Rightarrow>
               (let transition = utcoffset timestamp - utcoffset (timestamp - 86400)
                in if transition < 0
                   then (case localtime utcoffset (timestamp + transition) of
                           Inl e \<Rightarrow> Inl e
                         | Inr probe' \<Rightarrow> Inr dt)
                   else Inr dt)))"

definition isoweek1monday :: "int \<Rightarrow> int" where
  "isoweek1monday y =
     (let firstday = ymd2ord y 1 1;
          firstweekday = (firstday + 6) mod 7;
          week1monday = firstday - firstweekday
      in if firstweekday > 3 then week1monday + 7 else week1monday)"

text \<open>\<^verbatim>\<open>dt.isocalendar()\<close>: the ISO year, the ISO week number and the ISO week day.\<close>

definition isocalendar :: "datetime \<Rightarrow> int \<times> int \<times> int" where
  "isocalendar dt =
     (let today = ymd2ord (year dt) (month dt) (day dt);
          week = (today - isoweek1monday (year dt)) div 7;
          wday = (today - isoweek1monday (year dt)) mod 7
      in if week < 0
         then (year dt - 1, (today - isoweek1monday (year dt - 1)) div 7 + 1,
               (today - isoweek1monday (year dt - 1)) mod 7 + 1)
         else if week \<ge> 52 \<and> today \<ge> isoweek1monday (year dt + 1)
         then (year dt + 1, 1, wday + 1)
         else (year dt, week + 1, wday + 1))"

text \<open>
  \<^verbatim>\<open>%m\<close>, \<^verbatim>\<open>%d\<close>, \<^verbatim>\<open>%H\<close> and \<^verbatim>\<open>{week_number:02d}\<close> print two digits; \<^verbatim>\<open>%Y\<close> and
  \<^verbatim>\<open>{dt.year}\<close> print the year (four digits from the year 1000 on).
\<close>

definition two_digits :: "int \<Rightarrow> string" where
  "two_digits n = (if n < 10 then CHR ''0'' # str_int n else str_int n)"

subsection \<open>The commit timeline\<close>

text \<open>\<^verbatim>\<open>Analytics._format_time_period\<close> (analytics.py, lines 150-168).\<close>

definition format_time_period :: "(int \<Rightarrow> int) \<Rightarrow> int \<Rightarrow> TimePeriod \<Rightarrow> error + string" where
  "format_time_period utcoffset timestamp period =
     (case fromtimestamp utcoffset timestamp of
        Inl e \<Rightarrow> Inl e
      | Inr dt \<Rightarrow>
          Inr (case period of
                 HOUR \<Rightarrow> str_int (year dt) @ ''-'' @ two_digits (month dt) @ ''-''
                           @ two_digits (day dt) @ '' '' @ two_digits (hour dt) @ '':00''
               | DAY \<Rightarrow> str_int (year dt) @ ''-'' @ two_digits (month dt) @ ''-''
                           @ two_digits (day dt)
               | WEEK \<Rightarrow>
                   (let week_number = fst (snd (isocalendar dt))
                    in str_int (year dt) @ ''-W'' @ two_digits week_number)
               | MONTH \<Rightarrow> str_int (year dt) @ ''-'' @ two_digits (month dt)
               | YEAR \<Rightarrow> str_int (year dt)))"

text \<open>
  The same function of \<^verbatim>\<open>api.py\<close> (lines 642-660) takes the period as a string and raises
  \<^verbatim>\<open>ValueError\<close> on an unknown one.
\<close>

definition api_format_time_period :: "(int \<Rightarrow> int) \<Rightarrow> int \<Rightarrow> string \<Rightarrow> error + string" where
  "api_format_time_period utcoffset timestamp period =
     (case fromtimestamp utcoffset timestamp of
        Inl e \<Rightarrow> Inl e
      | Inr dt \<Rightarrow>
          if period = ''hour'' then
            Inr (str_int (year dt) @ ''-'' @ two_digits (month dt) @ ''-''
                   @ two_digits (day dt) @ '' '' @ two_digits (hour dt) @ '':00'')
          else if period = ''day'' then
            Inr (str_int (year dt) @ ''-'' @ two_digits (month dt) @ ''-'' @ two_digits (day dt))
          else if period = ''week'' then
            (let week_number = fst (snd (isocalendar dt))
             in Inr (str_int (year dt) @ ''-W'' @ two_digits week_number))
          else if period = ''month'' then
            Inr (str_int (year dt) @ ''-'' @ two_digits (month dt))
          else if period = ''year'' then Inr (str_int (year dt))
          else Inl (ValueError (''Unknown period: '' @ period)))"

text \<open>The arguments of the history query (analytics.py, lines 114-135).\<close>

definition timeline_args :: "AnalyticsOptions \<Rightarrow> string list" where
  "timeline_args options =
     [''log'', ''--pretty=format:%at'']
       @ (if include_merges options then [] else [''--no-merges''])
       @ str_flag ''--author'' (author_filter options)
       @ int_flag ''--since'' ''@'' (since_date options)
       @ int_flag ''--until'' ''@'' (until_date options)
       @ int_flag ''--max-count'' [] (max_commits options)
       @ int_flag ''--skip'' [] (skip_commits options)
       @ str_flag ''--'' (path_filter options)"

text \<open>The body of the loop over the timestamps (lines 141-146).\<close>

definition timeline_step ::
  "(int \<Rightarrow> int) \<Rightarrow> TimePeriod \<Rightarrow> (string, int) dict \<Rightarrow> int \<Rightarrow> error + (string, int) dict" where
  "timeline_step utcoffset period timeline timestamp =
     (case format_time_period utcoffset timestamp period of
        Inl e \<Rightarrow> Inl e
      | Inr key \<Rightarrow> Inr (AList.update key (dict_get timeline key 0 + 1) timeline))"

text \<open>\<^verbatim>\<open>Analytics.analyze_commit_history_timeline\<close> (analytics.py, lines 76-148).\<close>

definition analyze_commit_history_timeline ::
  "git \<Rightarrow> (int \<Rightarrow> int) \<Rightarrow> TimePeriod \<Rightarrow> AnalyticsOptions \<Rightarrow> error + (string, int) dict" where
  "analyze_commit_history_timeline run_git utcoffset period options =
     (case run_git (timeline_args options) of
        Inl e \<Rightarrow> Inl e
      | Inr output \<Rightarrow>
          (case comprehension (\<lambda>line. py_int (strip line))
                  (filter (\<lambda>line. strip line \<noteq> []) (splitlines output)) of
             Inl e \<Rightarrow> Inl e
           | Inr timestamps \<Rightarrow> for_loop (timeline_step utcoffset period) timestamps []))"

section \<open>Code churn\<close>

text \<open>
  \<^verbatim>\<open>Analytics.analyze_code_churn\<close> (analytics.py, lines 286-376). A value of the churn
  dictionary is itself a dictionary with the keys \<^verbatim>\<open>change_count\<close> and \<^verbatim>\<open>commits\<close> and,
  once the frequency data have been merged in, \<^verbatim>\<open>last_modified\<close>, \<^verbatim>\<open>authors\<close> and
  \<^verbatim>\<open>primary_owner\<close>: a missing key is \<open>None\<close>.
\<close>

record churn_metrics =
  m_change_count :: int
  m_commits :: "string set"
  m_last_modified :: "int option"
  m_authors :: "string list option"
  m_primary_owner :: "string option option"

definition new_metrics :: churn_metrics where
  "new_metrics =
     \<lparr>m_change_count = 0, m_commits = {}, m_last_modified = None, m_authors = None,
      m_primary_owner = None\<rparr>"

text \<open>The arguments of the history query (lines 322-340): no \<^verbatim>\<open>--skip\<close> here.\<close>

definition churn_args :: "AnalyticsOptions \<Rightarrow> string list" where
  "churn_args options =
     [''log'', ''--name-only'', ''--pretty=format:%H'']
       @ (if include_merges options then [] else [''--no-merges''])
       @ str_flag ''--author'' (author_filter options)
       @ int_flag ''--since'' ''@'' (since_date options)
       @ int_flag ''--until'' ''@'' (until_date options)
       @ int_flag ''--max-count'' [] (max_commits options)
       @ str_flag ''--'' (path_filter options)"

text \<open>
  The body of the loop over the lines (lines 347-363); the state is the dictionary
  \<^verbatim>\<open>churn\<close> and the variable \<^verbatim>\<open>current_commit\<close>, which is assigned once and never reset.
\<close>

definition churn_step ::
  "(string, churn_metrics) dict \<times> string option \<Rightarrow> string
    \<Rightarrow> (string, churn_metrics) dict \<times> string option" where
  "churn_step cc line =
     (if strip line = [] then cc
      else case snd cc of
        None \<Rightarrow> (fst cc, Some line)
      | Some current_commit \<Rightarrow>
          (let churn_metrics = dict_get (fst cc) line new_metrics
           in (AList.update line
                 (churn_metrics
                    \<lparr>m_change_count := m_change_count churn_metrics + 1,
                     m_commits := insert current_commit (m_commits churn_metrics)\<rparr>)
                 (fst cc),
               snd cc)))"

text \<open>The body of the loop over the frequency data (lines 368-374).\<close>

definition merge_step ::
  "(string, churn_metrics) dict \<Rightarrow> FileChangeFrequency \<Rightarrow> (string, churn_metrics) dict" where
  "merge_step churn entry =
     (case map_of churn (path entry) of
        None \<Rightarrow> churn
      | Some metrics \<Rightarrow>
          AList.update (path entry)
            (metrics\<lparr>m_last_modified := Some (last_modified entry),
                     m_authors := Some (authors entry),
                     m_primary_owner := Some (primary_owner entry)\<rparr>)
            churn)"

text \<open>
  \<open>frequency_data\<close> is what \<^verbatim>\<open>repo.analyze_change_frequency()\<close> returns or raises.
\<close>

definition analyze_code_churn ::
  "git \<Rightarrow> error + FileChangeFrequency list \<Rightarrow> AnalyticsOptions
    \<Rightarrow> error + (string, churn_metrics) dict" where
  "analyze_code_churn run_git frequency_data options =
     (case run_git (churn_args options) of
        Inl e \<Rightarrow> Inl e
      | Inr output \<Rightarrow>
          (case frequency_data of
             Inl e \<Rightarrow> Inl e
           | Inr entries \<Rightarrow>
               Inr (foldl merge_step
                      (fst (foldl churn_step ([], None) (splitlines output))) entries)))"

section \<open>File evolution\<close>

text \<open>
  \<^verbatim>\<open>Analytics.analyze_file_evolution\<close> (analytics.py, lines 170-284; the same loop in
  api.py, lines 662-744, builds dictionaries with the same entries). The fields of an entry
  other than the commit are \<open>None\<close> when the loop had not read them.
\<close>

record FileEvolutionEntry =
  commit_hash :: string
  author :: "string option"
  email :: "string option"
  timestamp :: "int option"
  message :: "string option"
  lines_added :: int
  lines_removed :: int

record evolution_vars =
  e_evolution :: "FileEvolutionEntry list"
  e_current_commit :: "string option"
  e_current_author :: "string option"
  e_current_email :: "string option"
  e_current_timestamp :: "int option"
  e_current_message :: "string option"
  e_current_diff :: "string list"
  e_parsing_diff :: bool

definition evolution_init :: evolution_vars where
  "evolution_init =
     \<lparr>e_evolution = [], e_current_commit = None, e_current_author = None,
      e_current_email = None, e_current_timestamp = None, e_current_message = None,
      e_current_diff = [], e_parsing_diff = False\<rparr>"

text \<open>The entry for the current commit and its diff (lines 242-253 and 271-282).\<close>

definition evolution_entry :: "evolution_vars \<Rightarrow> string \<Rightarrow> FileEvolutionEntry" where
  "evolution_entry v current_commit =
     \<lparr>commit_hash = current_commit, author = e_current_author v, email = e_current_email v,
      timestamp = e_current_timestamp v, message = e_current_message v,
      lines_added = int (length (filter (\<lambda>l. startswith l ''+'' \<and> \<not> startswith l ''+++'')
                       (e_current_diff v))),
      lines_removed = int (length (filter (\<lambda>l. startswith l ''-'' \<and> \<not> startswith l ''---'')
                       (e_current_diff v)))\<rparr>"

text \<open>The body of the loop over the lines (lines 227-267).\<close>

definition evolution_step :: "evolution_vars \<Rightarrow> string \<Rightarrow> error + evolution_vars" where
  "evolution_step v line =
     (case e_current_commit v of
        None \<Rightarrow> Inr (v\<lparr>e_current_commit := Some line\<rparr>)
      | Some current_commit \<Rightarrow>
     (case e_current_author v of
        None \<Rightarrow> Inr (v\<lparr>e_current_author := Some line\<rparr>)
      | Some a \<Rightarrow>
     (case e_current_email v of
        None \<Rightarrow> Inr (v\<lparr>e_current_email := Some line\<rparr>)
      | Some m \<Rightarrow>
     (case e_current_timestamp v of
        None \<Rightarrow>
          (case py_int line of
             Inl e \<Rightarrow> Inl e
           | Inr t \<Rightarrow> Inr (v\<lparr>e_current_timestamp := Some t\<rparr>))
      | Some t \<Rightarrow>
     (case e_current_message v of
        None \<Rightarrow> Inr (v\<lparr>e_current_message := Some line, e_parsing_diff := True\<rparr>)
      | Some s \<Rightarrow>
          if e_parsing_diff v then
            (if startswith line ''diff --git '' \<and> e_current_diff v \<noteq> [] then
               Inr \<lparr>e_evolution = e_evolution v @ [evolution_entry v current_commit],
                    e_current_commit = Some line, e_current_author = None,
                    e_current_email = None, e_current_timestamp = None,
                    e_current_message = None, e_current_diff = [line],
                    e_parsing_diff = False\<rparr>
             else Inr (v\<lparr>e_current_diff := e_current_diff v @ [line]\<rparr>))
          else Inr v)))))"

text \<open>After the loop (lines 269-284): the last diff.\<close>

definition evolution_finish :: "evolution_vars \<Rightarrow> FileEvolutionEntry list" where
  "evolution_finish v =
     (case e_current_commit v of
        None \<Rightarrow> e_evolution v
      | Some current_commit \<Rightarrow>
          if e_current_diff v \<noteq> [] then e_evolution v @ [evolution_entry v current_commit]
          else e_evolution v)"

definition evolution_args :: "string \<Rightarrow> AnalyticsOptions \<Rightarrow> string list" where
  "evolution_args fp options =
     [''log'', ''--follow'', ''--patch'', ''--pretty=format:%H%n%an%n%ae%n%at%n%s'']
       @ int_flag ''--max-count'' [] (max_commits options)
       @ [''--'', fp]"

definition analyze_file_evolution ::
  "git \<Rightarrow> string \<Rightarrow> AnalyticsOptions \<Rightarrow> error + FileEvolutionEntry list" where
  "analyze_file_evolution run_git fp options =
     (case run_git (evolution_args fp options) of
        Inl e \<Rightarrow> Inl e
      | Inr output \<Rightarrow>
          (case for_loop evolution_step (splitlines output) evolution_init of
             Inl e \<Rightarrow> Inl e
           | Inr v \<Rightarrow> Inr (evolution_finish v)))"

section \<open>Hotspots\<close>

text \<open>
  \<^verbatim>\<open>Analytics.analyze_hotspots\<close> of api.py (lines 746-799) and of analytics.py (lines
  378-466). The factor \<^verbatim>\<open>churn_factor * (complexity ** 0.5) / 1000.0\<close> is a real number
  here, a float in Python; it is positive exactly when both factors are.
\<close>

record HotspotEntry =
  file_path :: string
  churn_factor :: int
  complexity :: int
  hotspot_factor :: real

definition source_extensions :: "string list" where
  "source_extensions =
     [''.rs'', ''.py'', ''.java'', ''.js'', ''.ts'', ''.c'', ''.cpp'', ''.h'', ''.go'', ''.rb'',
      ''.php'', ''.cs'']"

text \<open>\<^verbatim>\<open>is_source_file\<close> of api.py (lines 761-763).\<close>

definition api_is_source_file :: "string \<Rightarrow> bool" where
  "api_is_source_file p =
     (let ext = lower (snd (splitext p))
      in ext \<in> set source_extensions \<and> \<not> contains p ''/node_modules/''
           \<and> \<not> contains p ''/vendor/'')"

text \<open>\<^verbatim>\<open>is_source_file\<close> of analytics.py (lines 424-426).\<close>

definition analytics_is_source_file :: "string \<Rightarrow> bool" where
  "analytics_is_source_file p =
     (let ext = (if CHR ''.'' \<in> set p then last (split (lower p) (CHR ''.'')) else [])
      in (CHR ''.'' # ext) \<in> set source_extensions \<and> \<not> contains p ''/node_modules/''
           \<and> \<not> contains p ''/vendor/'')"

text \<open>
  The body of the loop over the source files: \<open>None\<close> when the file has no frequency
  entry or its factor is not positive. A failing \<^verbatim>\<open>git show\<close> gives the complexity 0.
\<close>

definition make_hotspot :: "string \<Rightarrow> int \<Rightarrow> int \<Rightarrow> HotspotEntry option" where
  "make_hotspot fp churn cplx =
     (let factor = real_of_int churn * sqrt (real_of_int cplx) / 1000
      in if factor > 0
         then Some \<lparr>file_path = fp, churn_factor = churn, complexity = cplx,
                    hotspot_factor = factor\<rparr>
         else None)"

definition api_hotspot :: "git \<Rightarrow> FileChangeFrequency list \<Rightarrow> string \<Rightarrow> HotspotEntry option" where
  "api_hotspot run_git frequency_data fp =
     (case find (\<lambda>f. path f = fp) frequency_data of
        None \<Rightarrow> None
      | Some found \<Rightarrow>
          make_hotspot fp (change_count found)
            (case run_git [''show'', ''HEAD:'' @ fp] of
               Inl e \<Rightarrow> 0
             | Inr content \<Rightarrow> int (length (splitlines content))))"

definition api_analyze_hotspots :: "git \<Rightarrow> error + HotspotEntry list" where
  "api_analyze_hotspots run_git =
     (case analyze_change_frequency run_git None of
        Inl e \<Rightarrow> Inl e
      | Inr frequency_data \<Rightarrow>
          (case list_tracked run_git of
             Inl e \<Rightarrow> Inl e
           | Inr tracked_files \<Rightarrow>
               Inr (sort_key (\<lambda>h. - hotspot_factor h)
                      (List.map_filter (api_hotspot run_git frequency_data)
                         (filter api_is_source_file tracked_files)))))"

text \<open>
  In analytics.py the frequency data and the tracked files come from the wrapping
  repository object (parameters here), and the content is read through
  \<^verbatim>\<open>repo._repo._run_git_command\<close> when the wrapped object has that method (\<open>Some run_git\<close>);
  otherwise the complexity is estimated as ten times the churn.
\<close>

definition analytics_hotspot ::
  "git option \<Rightarrow> FileChangeFrequency list \<Rightarrow> string \<Rightarrow> HotspotEntry option" where
  "analytics_hotspot git_opt frequency_data fp =
     (case find (\<lambda>f. path f = fp) frequency_data of
        None \<Rightarrow> None
      | Some found \<Rightarrow>
          make_hotspot fp (change_count found)
            (case git_opt of
               None \<Rightarrow> change_count found * 10
             | Some run_git \<Rightarrow>
                 (case run_git [''show'', ''HEAD:'' @ fp] of
                    Inl e \<Rightarrow> 0
                  | Inr content \<Rightarrow> int (length (splitlines content)))))"

definition analytics_analyze_hotspots ::
  "git option \<Rightarrow> error + FileChangeFrequency list \<Rightarrow> error + string list
    \<Rightarrow> error + HotspotEntry list" where
  "analytics_analyze_hotspots git_opt frequency tracked =
     (case frequency of
        Inl e \<Rightarrow> Inl e
      | Inr frequency_data \<Rightarrow>
          (case tracked of
             Inl e \<Rightarrow> Inl e
           | Inr tracked_files \<Rightarrow>
               Inr (sort_key (\<lambda>h. - hotspot_factor h)
                      (List.map_filter (analytics_hotspot git_opt frequency_data)
                         (filter analytics_is_source_file tracked_files)))))"

section \<open>Properties of the knowledge map\<close>

lemma sum_list_set_contribution:
  "sum_list (map (\<lambda>ae. repository_contribution (snd ae)) (map (set_contribution T) m)) =
     (if T > 0 then of_int (sum_total_lines m) / of_int T * 100 else 0)"
  by (induction m)
    (simp_all add: set_contribution_def sum_total_lines_def add_divide_distrib distrib_right)

lemma sum_total_lines_set_contribution:
  "sum_total_lines (map (set_contribution T) m) = sum_total_lines m"
  by (induction m) (simp_all add: set_contribution_def sum_total_lines_def)

text \<open>Assigning to one key of a dictionary changes the sum over its values by the difference.\<close>

lemma sum_list_update:
  "distinct (map fst m) \<Longrightarrow>
   sum_list (map (\<lambda>ae. f (snd ae)) (AList.update k v m)) =
     sum_list (map (\<lambda>ae. f (snd ae)) m)
       - (case map_of m k of None \<Rightarrow> 0 | Some w \<Rightarrow> f w) + (f v :: int)"
proof (induction m)
  case Nil
  then show ?case by simp
next
  case (Cons a m)
  then show ?case
    by (cases a) (auto simp: image_iff split: option.splits dest: map_of_SomeD)
qed

lemma file_author_step_sum:
  "distinct (map fst m) \<Longrightarrow>
   sum_total_lines (file_author_step p x m al) = sum_total_lines m + snd al"
  unfolding file_author_step_def sum_total_lines_def Let_def
  by (simp add: sum_list_update dict_get_def new_expertise_def split: option.splits)

lemma file_author_step_distinct:
  "distinct (map fst m) \<Longrightarrow> distinct (map fst (file_author_step p x m al))"
  unfolding file_author_step_def Let_def by (simp add: distinct_update)

lemma foldl_file_author_step:
  "distinct (map fst m) \<Longrightarrow>
   distinct (map fst (foldl (file_author_step p x) m as)) \<and>
   sum_total_lines (foldl (file_author_step p x) m as) =
     sum_total_lines m + sum_list (map snd as)"
  by (induction as arbitrary: m)
    (simp_all add: file_author_step_distinct file_author_step_sum)

lemma foldl_file_step:
  "distinct (map fst m) \<Longrightarrow>
   distinct (map fst (foldl (file_step ext) m fs)) \<and>
   sum_total_lines (foldl (file_step ext) m fs) =
     sum_total_lines m + sum_list (map (\<lambda>pa. sum_list (map snd (snd pa))) fs)"
  by (induction fs arbitrary: m) (simp_all add: file_step_def foldl_file_author_step)

lemma dir_author_step_inv:
  "distinct (map fst m) \<Longrightarrow>
   distinct (map fst (dir_author_step d m al)) \<and>
   sum_total_lines (dir_author_step d m al) = sum_total_lines m"
  unfolding dir_author_step_def sum_total_lines_def
  by (simp add: sum_list_update distinct_update split: option.splits)

lemma foldl_dir_author_step:
  "distinct (map fst m) \<Longrightarrow>
   distinct (map fst (foldl (dir_author_step d) m as)) \<and>
   sum_total_lines (foldl (dir_author_step d) m as) = sum_total_lines m"
  by (induction as arbitrary: m) (simp_all add: dir_author_step_inv)

lemma foldl_dir_step:
  "distinct (map fst m) \<Longrightarrow>
   distinct (map fst (foldl dir_step m ds)) \<and>
   sum_total_lines (foldl dir_step m ds) = sum_total_lines m"
  by (induction ds arbitrary: m) (simp_all add: dir_step_def foldl_dir_author_step)

text \<open>
  The sum of \<open>total_lines\<close> over the authors of the result is the number of lines the
  ownership input attributes: every (path, author, count) adds its count once.
\<close>

lemma knowledge_map_total:
  "sum_total_lines (knowledge_map ext own) =
     sum_list (map (\<lambda>pa. sum_list (map snd (snd pa))) (ownership_files own))"
  unfolding knowledge_map_def Let_def
proof -
  let ?m1 = "foldl (file_step ext) [] (ownership_files own)"
  let ?m2 = "foldl dir_step ?m1 (ownership_directories own)"
  have 1: "distinct (map fst ?m1)" "sum_total_lines ?m1 =
      sum_list (map (\<lambda>pa. sum_list (map snd (snd pa))) (ownership_files own))"
    using foldl_file_step [of "[]" ext "ownership_files own"]
    by (simp_all add: sum_total_lines_def)
  have "sum_total_lines ?m2 = sum_total_lines ?m1"
    using foldl_dir_step [OF 1(1)] by simp
  with 1 show "sum_total_lines (map (set_contribution (sum_total_lines ?m2)) ?m2) =
      sum_list (map (\<lambda>pa. sum_list (map snd (snd pa))) (ownership_files own))"
    by (simp add: sum_total_lines_set_contribution)
qed

lemma knowledge_map_contribution:
  assumes "ae \<in> set (knowledge_map ext own)"
  shows "repository_contribution (snd ae) =
     (if sum_total_lines (knowledge_map ext own) > 0
      then 100 * of_int (total_lines (snd ae)) / of_int (sum_total_lines (knowledge_map ext own))
      else 0)"
proof -
  let ?m = "foldl dir_step (foldl (file_step ext) [] (ownership_files own))
              (ownership_directories own)"
  have T: "sum_total_lines (knowledge_map ext own) = sum_total_lines ?m"
    unfolding knowledge_map_def Let_def by (simp add: sum_total_lines_set_contribution)
  from assms obtain x where "x \<in> set ?m" "ae = set_contribution (sum_total_lines ?m) x"
    unfolding knowledge_map_def Let_def by auto
  then show ?thesis unfolding T by (simp add: set_contribution_def)
qed

lemma knowledge_map_sum:
  "sum_list (map (\<lambda>ae. repository_contribution (snd ae)) (knowledge_map ext own)) =
     (if sum_total_lines (knowledge_map ext own) > 0 then 100 else 0)"
proof -
  let ?m = "foldl dir_step (foldl (file_step ext) [] (ownership_files own))
              (ownership_directories own)"
  have T: "sum_total_lines (knowledge_map ext own) = sum_total_lines ?m"
    unfolding knowledge_map_def Let_def by (simp add: sum_total_lines_set_contribution)
  show ?thesis
    unfolding T unfolding knowledge_map_def Let_def sum_list_set_contribution by simp
qed

text \<open>
  Claim C8. In both implementations, with the quotient taken exactly: the sum of
  \<open>total_lines\<close> over all authors is the number of lines the ownership input attributes;
  when it is positive, every author's \<open>repository_contribution\<close> is
  \<open>100 * total_lines / sum\<close> and the contributions add up to 100; when it is 0, every
  author's contribution is 0.
\<close>

theorem knowledge_map_contribution_shares:
  "\<forall>km \<in> {analytics_analyze_knowledge_map own, api_analyze_knowledge_map own}.
      sum_total_lines km =
        sum_list (map (\<lambda>pa. sum_list (map snd (snd pa))) (ownership_files own)) \<and>
      (0 < sum_total_lines km \<longrightarrow>
         (\<forall>ae \<in> set km. repository_contribution (snd ae) =
            100 * of_int (total_lines (snd ae)) / of_int (sum_total_lines km)) \<and>
         sum_list (map (\<lambda>ae. repository_contribution (snd ae)) km) = 100) \<and>
      (sum_total_lines km = 0 \<longrightarrow>
         (\<forall>ae \<in> set km. repository_contribution (snd ae) = 0))"
proof -
  have "sum_total_lines (knowledge_map ext own) =
        sum_list (map (\<lambda>pa. sum_list (map snd (snd pa))) (ownership_files own)) \<and>
      (0 < sum_total_lines (knowledge_map ext own) \<longrightarrow>
         (\<forall>ae \<in> set (knowledge_map ext own). repository_contribution (snd ae) =
            100 * of_int (total_lines (snd ae)) / of_int (sum_total_lines (knowledge_map ext own))) \<and>
         sum_list (map (\<lambda>ae. repository_contribution (snd ae)) (knowledge_map ext own)) = 100) \<and>
      (sum_total_lines (knowledge_map ext own) = 0 \<longrightarrow>
         (\<forall>ae \<in> set (knowledge_map ext own). repository_contribution (snd ae) = 0))" for ext
    using knowledge_map_total [of ext own] knowledge_map_sum [of ext own]
    by (auto simp: knowledge_map_contribution)
  then show ?thesis
    by (simp add: analytics_analyze_knowledge_map_def api_analyze_knowledge_map_def)
qed

text \<open>
  The theorem at two inputs: alice owns 3 lines and bob 1 line of \<^verbatim>\<open>a.py\<close> (75 and 25
  percent, 100 together); and an input whose only count is 0.
\<close>

theorem knowledge_map_contribution_shares_witness:
  "sum_total_lines (api_analyze_knowledge_map
      \<lparr>ownership_files = [(''a.py'', [(''alice'', 3), (''bob'', 1)])],
       ownership_directories = [([], [(''alice'', 3), (''bob'', 1)])]\<rparr>) = 4 \<and>
   sum_list (map (\<lambda>ae. repository_contribution (snd ae)) (analytics_analyze_knowledge_map
      \<lparr>ownership_files = [(''a.py'', [(''alice'', 3), (''bob'', 1)])],
       ownership_directories = [([], [(''alice'', 3), (''bob'', 1)])]\<rparr>)) = 100 \<and>
   sum_list (map (\<lambda>ae. repository_contribution (snd ae)) (api_analyze_knowledge_map
      \<lparr>ownership_files = [(''a.py'', [(''alice'', 3), (''bob'', 1)])],
       ownership_directories = [([], [(''alice'', 3), (''bob'', 1)])]\<rparr>)) = 100 \<and>
   map (\<lambda>ae. repository_contribution (snd ae)) (api_analyze_knowledge_map
      \<lparr>ownership_files = [(''a.py'', [(''alice'', 3), (''bob'', 1)])],
       ownership_directories = [([], [(''alice'', 3), (''bob'', 1)])]\<rparr>) = [75, 25] \<and>
   sum_total_lines (api_analyze_knowledge_map
      \<lparr>ownership_files = [(''a.py'', [(''alice'', 0)])], ownership_directories = []\<rparr>) = 0 \<and>
   list_all (\<lambda>ae. repository_contribution (snd ae) = 0) (api_analyze_knowledge_map
      \<lparr>ownership_files = [(''a.py'', [(''alice'', 0)])], ownership_directories = []\<rparr>)"
proof -
  have v: "map (\<lambda>ae. repository_contribution (snd ae)) (api_analyze_knowledge_map
      \<lparr>ownership_files = [(''a.py'', [(''alice'', 3), (''bob'', 1)])],
       ownership_directories = [([], [(''alice'', 3), (''bob'', 1)])]\<rparr>) = [75, 25]"
    by code_simp
  show ?thesis
    using knowledge_map_contribution_shares
        [of "\<lparr>ownership_files = [(''a.py'', [(''alice'', 3), (''bob'', 1)])],
             ownership_directories = [([], [(''alice'', 3), (''bob'', 1)])]\<rparr>"]
      knowledge_map_contribution_shares
        [of "\<lparr>ownership_files = [(''a.py'', [(''alice'', 0)])], ownership_directories = []\<rparr>"]
      v
    by (simp add: list_all_iff)
qed

text \<open>
  Claim C9. The two implementations do not derive the same language key. For the file
  \<^verbatim>\<open>src.d/Makefile\<close>, which has no extension, \<^verbatim>\<open>api.py\<close> (\<^verbatim>\<open>os.path.splitext\<close>) files the
  lines under \<^verbatim>\<open>unknown\<close>, while \<^verbatim>\<open>analytics.py\<close> (the text after the last dot of the whole
  path) files them under \<^verbatim>\<open>d/makefile\<close>.
\<close>

theorem knowledge_map_language_keys_differ:
  "analytics_analyze_knowledge_map
      \<lparr>ownership_files = [(''src.d/Makefile'', [(''alice'', 3)])],
       ownership_directories = [(''src.d'', [(''alice'', 3)])]\<rparr> =
     [(''alice'', \<lparr>files = [(''src.d/Makefile'', 3)], directories = [(''src.d'', 3)],
        languages = [(''d/makefile'', 3)], total_lines = 3, repository_contribution = 100\<rparr>)] \<and>
   api_analyze_knowledge_map
      \<lparr>ownership_files = [(''src.d/Makefile'', [(''alice'', 3)])],
       ownership_directories = [(''src.d'', [(''alice'', 3)])]\<rparr> =
     [(''alice'', \<lparr>files = [(''src.d/Makefile'', 3)], directories = [(''src.d'', 3)],
        languages = [(''unknown'', 3)], total_lines = 3, repository_contribution = 100\<rparr>)]"
  by code_simp

section \<open>Properties of the change frequency\<close>

lemma set_update_subset: "set (AList.update k v d) \<subseteq> insert (k, v) (set d)"
  by (induction d) auto

lemma update_not_Nil: "AList.update k v d \<noteq> []"
  by (cases d) auto

lemma owner_fold_inv:
  assumes "\<forall>ac \<in> set d. 0 < snd ac"
  shows "(d = [] \<longrightarrow> foldl owner_step (None, 0) d = (None, 0)) \<and>
         (d \<noteq> [] \<longrightarrow> (\<exists>i < length d. foldl owner_step (None, 0) d = (Some (fst (d ! i)), snd (d ! i)) \<and>
             (\<forall>j < length d. snd (d ! j) \<le> snd (d ! i)) \<and> (\<forall>j < i. snd (d ! j) < snd (d ! i))))"
  using assms
proof (induction d rule: rev_induct)
  case Nil
  then show ?case by simp
next
  case (snoc x d)
  show ?case
  proof (cases "d = []")
    case True
    with snoc.prems show ?thesis by (simp add: owner_step_def)
  next
    case False
    with snoc obtain i where i: "i < length d"
      "foldl owner_step (None, 0) d = (Some (fst (d ! i)), snd (d ! i))"
      "\<forall>j < length d. snd (d ! j) \<le> snd (d ! i)" "\<forall>j < i. snd (d ! j) < snd (d ! i)"
      by auto
    show ?thesis
    proof (cases "snd x > snd (d ! i)")
      case True
      have "foldl owner_step (None, 0) (d @ [x]) = (Some (fst x), snd x)"
        using i(2) True by (simp add: owner_step_def)
      moreover have "\<forall>j < length (d @ [x]). snd ((d @ [x]) ! j) \<le> snd x"
        using i(3) True by (auto simp: nth_append less_Suc_eq)
      moreover have "\<forall>j < length d. snd ((d @ [x]) ! j) < snd x"
        using i(3) True by (auto simp: nth_append)
      ultimately show ?thesis
        by (intro conjI impI exI [of _ "length d"]) (simp_all add: nth_append)
    next
      case False
      have "foldl owner_step (None, 0) (d @ [x]) = (Some (fst (d ! i)), snd (d ! i))"
        using i(2) False by (simp add: owner_step_def)
      moreover have "\<forall>j < length (d @ [x]). snd ((d @ [x]) ! j) \<le> snd (d ! i)"
        using i(3) False by (auto simp: nth_append less_Suc_eq)
      ultimately show ?thesis
        using i(1,4) by (intro conjI impI exI [of _ i]) (auto simp: nth_append)
    qed
  qed
qed


lemma for_loop_invariant:
  assumes "\<And>s x s'. I s \<Longrightarrow> body s x = Inr s' \<Longrightarrow> I s'"
    and "I s" and "for_loop body xs s = Inr s'"
  shows "I s'"
  using assms(2,3)
proof (induction xs arbitrary: s)
  case Nil
  then show ?case by simp
next
  case (Cons x xs)
  then show ?case by (auto split: sum.splits intro: assms(1))
qed

lemma dict_get_positive:
  assumes "\<forall>ac \<in> set d. 0 < snd ac"
  shows "0 \<le> dict_get d a (0::int)"
proof (cases "map_of d a")
  case None
  then show ?thesis by (simp add: dict_get_def)
next
  case (Some n)
  then have "(a, n) \<in> set d" by (rule map_of_SomeD)
  with assms Some show ?thesis by (force simp: dict_get_def)
qed

lemma by_author_update:
  fixes d :: "('k, int) dict"
  assumes "\<forall>ac \<in> set d. 0 < snd ac" "distinct (map fst d)"
  shows "AList.update a (dict_get d a 0 + 1) d \<noteq> [] \<and>
         (\<forall>ac \<in> set (AList.update a (dict_get d a 0 + 1) d). 0 < snd ac) \<and>
         distinct (map fst (AList.update a (dict_get d a 0 + 1) d))"
proof -
  have "0 < dict_get d a 0 + 1" using dict_get_positive [OF assms(1), of a] by simp
  then have "\<forall>ac \<in> insert (a, dict_get d a 0 + 1) (set d). 0 < snd ac"
    using assms(1) by simp
  then have "\<forall>ac \<in> set (AList.update a (dict_get d a 0 + 1) d). 0 < snd ac"
    using set_update_subset [of a "dict_get d a 0 + 1" d] by blast
  then show ?thesis using assms(2) by (simp add: update_not_Nil distinct_update)
qed

lemma frequency_touch_recorded:
  assumes "authors_recorded v"
  shows "authors_recorded (frequency_touch v a t p)"
proof -
  let ?d = "dict_get (f_file_authors v) p []"
  have d: "(\<forall>ac \<in> set ?d. 0 < snd ac) \<and> distinct (map fst ?d)"
  proof (cases "map_of (f_file_authors v) p")
    case None
    then show ?thesis by (simp add: dict_get_def)
  next
    case (Some d0)
    with assms have "(\<forall>ac \<in> set d0. 0 < snd ac) \<and> distinct (map fst d0)"
      unfolding authors_recorded_def by blast
    with Some show ?thesis by (simp add: dict_get_def)
  qed
  note u = by_author_update [of ?d a, OF conjunct1 [OF d] conjunct2 [OF d]]
  have keys: "fst ` set (AList.update p c (f_change_counts v)) = insert p (fst ` set (f_change_counts v))" for c
    using dom_update [of p c "f_change_counts v"] by (simp add: dom_map_of_conv_image_fst)
  show ?thesis
    using assms u unfolding authors_recorded_def frequency_touch_def Let_def
    by (auto simp: update_conv' keys dom_update split: if_splits)
qed

lemma frequency_step_recorded:
  assumes "authors_recorded v" "frequency_step v line = Inr v'"
  shows "authors_recorded v'"
proof -
  have simple: "authors_recorded (v\<lparr>f_current_author := x, f_current_timestamp := y\<rparr>)"
    "authors_recorded (v\<lparr>f_current_author := x\<rparr>)"
    "authors_recorded (v\<lparr>f_current_timestamp := y\<rparr>)" for x y
    using assms(1) by (simp_all add: authors_recorded_def)
  show ?thesis
    using assms(2) simple frequency_touch_recorded [OF assms(1)]
    by (auto simp: frequency_step_def split: if_splits option.splits sum.splits)
qed

lemma frequency_loop_recorded:
  assumes "for_loop frequency_step ls frequency_init = Inr v"
  shows "authors_recorded v"
proof (rule for_loop_invariant [where I = authors_recorded, OF _ _ assms])
  show "authors_recorded frequency_init"
    by (simp add: authors_recorded_def frequency_init_def)
qed (rule frequency_step_recorded)

text \<open>
  The selection of the primary owner, against what the loop has recorded. For every entry
  that \<^verbatim>\<open>analyze_change_frequency\<close> returns, the loop holds a non-empty dictionary
  \<open>by_author\<close> of counts for its path, in the order in which it has entered the authors;
  \<open>primary_owner\<close> is the author at the first position \<open>i\<close> that holds the greatest count:
  no count is greater, and every count before \<open>i\<close> is smaller. Whether these counts are the
  touches of the history depends on the log (see the claim below).
\<close>

lemma primary_owner_of_recorded_counts:
  assumes "run_git (frequency_args pf) = Inr output"
    and "analyze_change_frequency run_git pf = Inr result"
    and "e \<in> set result"
  shows "\<exists>v by_author i.
           for_loop frequency_step (splitlines output) frequency_init = Inr v \<and>
           map_of (f_file_authors v) (path e) = Some by_author \<and>
           distinct (map fst by_author) \<and> authors e = map fst by_author \<and>
           i < length by_author \<and> primary_owner e = Some (fst (by_author ! i)) \<and>
           (\<forall>j < length by_author. snd (by_author ! j) \<le> snd (by_author ! i)) \<and>
           (\<forall>j < i. snd (by_author ! j) < snd (by_author ! i))"
proof -
  from assms(1,2) obtain v where
    v: "for_loop frequency_step (splitlines output) frequency_init = Inr v"
    by (auto simp: analyze_change_frequency_def split: sum.splits)
  have inv: "authors_recorded v" using v by (rule frequency_loop_recorded)
  from assms(1,2) v have "result = sort_key (\<lambda>e. - change_count e)
      (map (frequency_entry v) (f_change_counts v))"
    by (simp add: analyze_change_frequency_def)
  with assms(3) obtain pc where pc: "pc \<in> set (f_change_counts v)" "e = frequency_entry v pc"
    by auto
  then have "fst pc \<in> dom (map_of (f_file_authors v))"
    using inv by (auto simp: authors_recorded_def)
  then obtain d where d: "map_of (f_file_authors v) (fst pc) = Some d" by auto
  with inv have dd: "d \<noteq> []" "\<forall>ac \<in> set d. 0 < snd ac" "distinct (map fst d)"
    by (auto simp: authors_recorded_def)
  from owner_fold_inv [OF dd(2)] dd(1) obtain i where i: "i < length d"
    "foldl owner_step (None, 0) d = (Some (fst (d ! i)), snd (d ! i))"
    "\<forall>j < length d. snd (d ! j) \<le> snd (d ! i)" "\<forall>j < i. snd (d ! j) < snd (d ! i)"
    by auto
  have "path e = fst pc" "authors e = map fst d" "primary_owner e = Some (fst (d ! i))"
    using pc(2) d i(2) by (simp_all add: frequency_entry_def dict_get_def find_primary_owner_def)
  with v d dd(3) i(1,3,4) show ?thesis by auto
qed

text \<open>
  On a log of four commits that all list a file: alice and bob touch \<^verbatim>\<open>a.py\<close> once each,
  and alice, met first, is its owner; bob touches \<^verbatim>\<open>c.py\<close> once and carol, later, twice.
\<close>

lemma primary_owner_tie_example:
  "analyze_change_frequency
     (\<lambda>args. Inr (git_output [''alice'', ''100'', ''a.py'', '''', ''bob'', ''200'', ''a.py'',
        ''c.py'', '''', ''carol'', ''300'', ''c.py'', '''', ''carol'', ''400'', ''c.py''])) None =
     Inr [\<lparr>path = ''c.py'', change_count = 3, last_modified = 400,
           authors = [''bob'', ''carol''], primary_owner = Some ''carol''\<rparr>,
          \<lparr>path = ''a.py'', change_count = 2, last_modified = 200,
           authors = [''alice'', ''bob''], primary_owner = Some ''alice''\<rparr>] \<and>
   (\<exists>v by_author i.
      for_loop frequency_step
        (splitlines (git_output [''alice'', ''100'', ''a.py'', '''', ''bob'', ''200'', ''a.py'',
          ''c.py'', '''', ''carol'', ''300'', ''c.py'', '''', ''carol'', ''400'', ''c.py'']))
        frequency_init = Inr v \<and>
      map_of (f_file_authors v) ''a.py'' = Some by_author \<and>
      distinct (map fst by_author) \<and> [''alice'', ''bob''] = map fst by_author \<and>
      i < length by_author \<and> Some ''alice'' = Some (fst (by_author ! i)) \<and>
      (\<forall>j < length by_author. snd (by_author ! j) \<le> snd (by_author ! i)) \<and>
      (\<forall>j < i. snd (by_author ! j) < snd (by_author ! i)))"
proof -
  let ?git = "\<lambda>args :: string list. (Inr (git_output [''alice'', ''100'', ''a.py'', '''',
        ''bob'', ''200'', ''a.py'', ''c.py'', '''', ''carol'', ''300'', ''c.py'', '''',
        ''carol'', ''400'', ''c.py'']) :: error + string)"
  let ?e = "\<lparr>path = ''a.py'', change_count = 2, last_modified = 200,
           authors = [''alice'', ''bob''], primary_owner = Some ''alice''\<rparr>"
  have r: "analyze_change_frequency ?git None =
     Inr [\<lparr>path = ''c.py'', change_count = 3, last_modified = 400,
           authors = [''bob'', ''carol''], primary_owner = Some ''carol''\<rparr>, ?e]"
    by code_simp
  have o: "?git (frequency_args None) = Inr (git_output [''alice'', ''100'', ''a.py'', '''',
        ''bob'', ''200'', ''a.py'', ''c.py'', '''', ''carol'', ''300'', ''c.py'', '''',
        ''carol'', ''400'', ''c.py''])"
    by simp
  have "?e \<in> set [\<lparr>path = ''c.py'', change_count = 3, last_modified = 400,
           authors = [''bob'', ''carol''], primary_owner = Some ''carol''\<rparr>, ?e]"
    by simp
  from primary_owner_of_recorded_counts [OF o r this] r show ?thesis by simp
qed

lemma for_loop_append:
  "for_loop body (xs @ ys) s =
     (case for_loop body xs s of Inl e \<Rightarrow> Inl e | Inr s' \<Rightarrow> for_loop body ys s')"
  by (induction xs arbitrary: s) (auto split: sum.splits)

lemma update_map_present:
  "k \<in> set ys \<Longrightarrow> distinct ys \<Longrightarrow>
   AList.update k v (map (\<lambda>b. (b, f b)) ys) = map (\<lambda>b. (b, if b = k then v else f b)) ys"
  by (induction ys) auto

lemma update_map_absent:
  "k \<notin> set ys \<Longrightarrow> AList.update k v (map (\<lambda>b. (b, f b)) ys) = map (\<lambda>b. (b, f b)) ys @ [(k, v)]"
  by (induction ys) auto

lemma map_of_map_key:
  "map_of (map (\<lambda>b. (b, f b)) ys) k = (if k \<in> set ys then Some (f k) else None)"
  by (induction ys) auto

text \<open>Counting the elements of a list one by one, as the loop counts the authors of a path.\<close>

lemma tally:
  "foldl (\<lambda>d a. AList.update a (dict_get d a 0 + 1) d) [] xs =
     map (\<lambda>a. (a, int (count_list xs a))) (rev (remdups (rev xs)))"
proof (induction xs rule: rev_induct)
  case Nil
  then show ?case by simp
next
  case (snoc a xs)
  let ?F = "rev (remdups (rev xs))"
  let ?d = "map (\<lambda>b. (b, int (count_list xs b))) ?F"
  have g: "dict_get ?d a 0 = int (count_list xs a)"
    by (simp add: dict_get_def map_of_map_key count_list_0_iff)
  have step: "foldl (\<lambda>d a. AList.update a (dict_get d a 0 + 1) d) [] (xs @ [a]) =
      AList.update a (int (count_list xs a) + 1) ?d"
    unfolding foldl_append snoc.IH by (simp only: foldl.simps g)
  show ?case
  proof (cases "a \<in> set xs")
    case True
    then have F: "rev (remdups (rev (xs @ [a]))) = ?F" by simp
    from True have "AList.update a (int (count_list xs a) + 1) ?d =
        map (\<lambda>b. (b, if b = a then int (count_list xs a) + 1 else int (count_list xs b))) ?F"
      by (intro update_map_present) simp_all
    also have "\<dots> = map (\<lambda>b. (b, int (count_list (xs @ [a]) b))) ?F"
      by (rule map_cong) auto
    finally show ?thesis unfolding step F .
  next
    case False
    then have F: "rev (remdups (rev (xs @ [a]))) = ?F @ [a]" by simp
    from False have c: "count_list xs a = 0" by (simp add: count_list_0_iff)
    from False have u: "AList.update a (int (count_list xs a) + 1) ?d =
        ?d @ [(a, int (count_list xs a) + 1)]"
      by (intro update_map_absent) simp
    have d': "map (\<lambda>b. (b, int (count_list (xs @ [a]) b))) ?F = ?d"
      using False by (intro map_cong) auto
    have e: "int (count_list (xs @ [a]) a) = int (count_list xs a) + 1"
      by simp
    have "map (\<lambda>b. (b, int (count_list (xs @ [a]) b))) (?F @ [a]) =
        ?d @ [(a, int (count_list xs a) + 1)]"
      by (simp only: map_append list.map d' e)
    with u have "AList.update a (int (count_list xs a) + 1) ?d =
        map (\<lambda>b. (b, int (count_list (xs @ [a]) b))) (?F @ [a])"
      by (rule trans [OF _ sym])
    then show ?thesis unfolding step F .
  qed
qed

lemma frequency_touch_authors:
  "f_current_author (frequency_touch v a t p) = f_current_author v \<and>
   f_current_timestamp (frequency_touch v a t p) = f_current_timestamp v \<and>
   dict_get (f_file_authors (frequency_touch v a t p)) q [] =
     (if q = p
      then AList.update a (dict_get (dict_get (f_file_authors v) p []) a 0 + 1)
             (dict_get (f_file_authors v) p [])
      else dict_get (f_file_authors v) q [])"
  by (simp add: frequency_touch_def Let_def dict_get_def update_conv')

lemma touch_loop:
  assumes "f_current_author v = Some a" "f_current_timestamp v = Some t"
    "\<forall>p \<in> set ps. strip p \<noteq> []"
  shows "\<exists>v'. for_loop frequency_step ps v = Inr v' \<and>
           f_current_author v' = Some a \<and> f_current_timestamp v' = Some t \<and>
           (\<forall>q. dict_get (f_file_authors v') q [] =
              foldl (\<lambda>d a. AList.update a (dict_get d a 0 + 1) d)
                (dict_get (f_file_authors v) q []) (map (\<lambda>p. a) (filter (\<lambda>p. p = q) ps)))"
  using assms
proof (induction ps arbitrary: v)
  case Nil
  then show ?case by simp
next
  case (Cons p ps)
  let ?v1 = "frequency_touch v a t p"
  have s: "frequency_step v p = Inr ?v1"
    using Cons.prems by (simp add: frequency_step_def)
  note t = frequency_touch_authors [of v a t p]
  from Cons.IH [of ?v1] Cons.prems t obtain v' where v':
    "for_loop frequency_step ps ?v1 = Inr v'"
    "f_current_author v' = Some a" "f_current_timestamp v' = Some t"
    "\<forall>q. dict_get (f_file_authors v') q [] =
       foldl (\<lambda>d a. AList.update a (dict_get d a 0 + 1) d)
         (dict_get (f_file_authors ?v1) q []) (map (\<lambda>p. a) (filter (\<lambda>p. p = q) ps))"
    by auto
  have "dict_get (f_file_authors v') q [] =
       foldl (\<lambda>d a. AList.update a (dict_get d a 0 + 1) d)
         (dict_get (f_file_authors v) q []) (map (\<lambda>p. a) (filter (\<lambda>p. p = q) (p # ps)))" for q
    using v'(4) t by (cases "q = p") simp_all
  with v'(1,2,3) s show ?case by simp
qed

lemma block_loop:
  assumes "f_current_author v = None" "f_current_timestamp v = None"
    "strip (fst ev) \<noteq> []" "strip (fst (snd ev)) \<noteq> []" "py_int (fst (snd ev)) = Inr t"
    "\<forall>p \<in> set (snd (snd ev)). strip p \<noteq> []"
  shows "\<exists>v'. for_loop frequency_step (commit_block ev) v = Inr v' \<and>
           f_current_author v' = None \<and> f_current_timestamp v' = None \<and>
           (\<forall>q. dict_get (f_file_authors v') q [] =
              foldl (\<lambda>d a. AList.update a (dict_get d a 0 + 1) d)
                (dict_get (f_file_authors v) q [])
                (map (\<lambda>p. fst ev) (filter (\<lambda>p. p = q) (snd (snd ev)))))"
proof -
  let ?v2 = "v\<lparr>f_current_author := Some (fst ev), f_current_timestamp := Some t\<rparr>"
  have h: "for_loop frequency_step [fst ev, fst (snd ev)] v = Inr ?v2"
    using assms(1-5) by (simp add: frequency_step_def)
  from touch_loop [of ?v2 "fst ev" t "snd (snd ev)"] assms(6) obtain v3 where v3:
    "for_loop frequency_step (snd (snd ev)) ?v2 = Inr v3"
    "f_current_author v3 = Some (fst ev)" "f_current_timestamp v3 = Some t"
    "\<forall>q. dict_get (f_file_authors v3) q [] =
       foldl (\<lambda>d a. AList.update a (dict_get d a 0 + 1) d)
         (dict_get (f_file_authors v) q [])
         (map (\<lambda>p. fst ev) (filter (\<lambda>p. p = q) (snd (snd ev))))"
    by auto
  let ?v4 = "v3\<lparr>f_current_author := None, f_current_timestamp := None\<rparr>"
  have b: "for_loop frequency_step [[]] v3 = Inr ?v4"
    by (simp add: frequency_step_def strip_def)
  have "commit_block ev = [fst ev, fst (snd ev)] @ snd (snd ev) @ [[]]"
    by (simp add: commit_block_def)
  then have "for_loop frequency_step (commit_block ev) v = Inr ?v4"
    using h v3(1) b by (simp only: for_loop_append sum.case)
  with v3(4) show ?thesis by simp
qed

lemma log_loop:
  assumes "f_current_author v = None" "f_current_timestamp v = None"
    "\<forall>ev \<in> set events. strip (fst ev) \<noteq> [] \<and> strip (fst (snd ev)) \<noteq> [] \<and>
       (\<exists>t. py_int (fst (snd ev)) = Inr t) \<and> (\<forall>p \<in> set (snd (snd ev)). strip p \<noteq> [])"
  shows "\<exists>v'. for_loop frequency_step (concat (map commit_block events)) v = Inr v' \<and>
           f_current_author v' = None \<and> f_current_timestamp v' = None \<and>
           (\<forall>q. dict_get (f_file_authors v') q [] =
              foldl (\<lambda>d a. AList.update a (dict_get d a 0 + 1) d)
                (dict_get (f_file_authors v) q []) (touch_authors q events))"
  using assms
proof (induction events arbitrary: v)
  case Nil
  then show ?case by (simp add: touch_authors_def)
next
  case (Cons ev events)
  from Cons.prems(3) obtain t where t: "py_int (fst (snd ev)) = Inr t" by auto
  from block_loop [OF Cons.prems(1,2) _ _ t] Cons.prems(3) obtain v1 where v1:
    "for_loop frequency_step (commit_block ev) v = Inr v1"
    "f_current_author v1 = None" "f_current_timestamp v1 = None"
    "\<forall>q. dict_get (f_file_authors v1) q [] =
       foldl (\<lambda>d a. AList.update a (dict_get d a 0 + 1) d)
         (dict_get (f_file_authors v) q [])
         (map (\<lambda>p. fst ev) (filter (\<lambda>p. p = q) (snd (snd ev))))"
    by auto
  from Cons.IH [OF v1(2,3)] Cons.prems(3) obtain v' where v':
    "for_loop frequency_step (concat (map commit_block events)) v1 = Inr v'"
    "f_current_author v' = None" "f_current_timestamp v' = None"
    "\<forall>q. dict_get (f_file_authors v') q [] =
       foldl (\<lambda>d a. AList.update a (dict_get d a 0 + 1) d)
         (dict_get (f_file_authors v1) q []) (touch_authors q events)"
    by auto
  have "for_loop frequency_step (concat (map commit_block (ev # events))) v = Inr v'"
    using v1(1) v'(1) by (simp add: for_loop_append)
  moreover have "dict_get (f_file_authors v') q [] =
       foldl (\<lambda>d a. AList.update a (dict_get d a 0 + 1) d)
         (dict_get (f_file_authors v) q []) (touch_authors q (ev # events))" for q
    using v'(4) v1(4) by (simp add: touch_authors_def)
  ultimately show ?case using v'(2,3) by blast
qed

text \<open>
  The counts against the log. When the lines of the log, with a blank line added at the
  end, are commit blocks (every commit is followed by a blank line, as git prints it when
  every commit lists a file), the authors of an entry are the authors that touched its path,
  in the order of their first touch, and \<open>primary_owner\<close> is the first of them with the
  greatest number of touches.
\<close>

lemma primary_owner_of_touches:
  assumes "run_git (frequency_args pf) = Inr output"
    and "splitlines output @ [[]] = concat (map commit_block events)"
    and "\<forall>ev \<in> set events. strip (fst ev) \<noteq> [] \<and> strip (fst (snd ev)) \<noteq> [] \<and>
           (\<exists>t. py_int (fst (snd ev)) = Inr t) \<and> (\<forall>p \<in> set (snd (snd ev)). strip p \<noteq> [])"
    and "analyze_change_frequency run_git pf = Inr result"
    and "e \<in> set result"
  shows "authors e = rev (remdups (rev (touch_authors (path e) events))) \<and>
         (\<exists>i < length (authors e).
            primary_owner e = Some (authors e ! i) \<and>
            (\<forall>j < length (authors e).
               count_list (touch_authors (path e) events) (authors e ! j)
                 \<le> count_list (touch_authors (path e) events) (authors e ! i)) \<and>
            (\<forall>j < i.
               count_list (touch_authors (path e) events) (authors e ! j)
                 < count_list (touch_authors (path e) events) (authors e ! i)))"
proof -
  let ?T = "touch_authors (path e) events"
  let ?F = "rev (remdups (rev ?T))"
  from primary_owner_of_recorded_counts [OF assms(1,4,5)] obtain v by_author i where r:
    "for_loop frequency_step (splitlines output) frequency_init = Inr v"
    "map_of (f_file_authors v) (path e) = Some by_author"
    "authors e = map fst by_author" "i < length by_author"
    "primary_owner e = Some (fst (by_author ! i))"
    "\<forall>j < length by_author. snd (by_author ! j) \<le> snd (by_author ! i)"
    "\<forall>j < i. snd (by_author ! j) < snd (by_author ! i)"
    by blast
  have init: "f_current_author frequency_init = None" "f_current_timestamp frequency_init = None"
    "f_file_authors frequency_init = []"
    by (simp_all add: frequency_init_def)
  from log_loop [OF init(1,2) assms(3)] obtain vf where vf:
    "for_loop frequency_step (concat (map commit_block events)) frequency_init = Inr vf"
    "\<forall>q. dict_get (f_file_authors vf) q [] =
       foldl (\<lambda>d a. AList.update a (dict_get d a 0 + 1) d)
         (dict_get (f_file_authors frequency_init) q []) (touch_authors q events)"
    by blast
  from vf(1) have "for_loop frequency_step [[]] v = Inr vf"
    unfolding assms(2) [symmetric] for_loop_append r(1) by simp
  then have "f_file_authors vf = f_file_authors v"
    by (auto simp: frequency_step_def strip_def)
  moreover have "dict_get [] (path e) [] = ([] :: (string, int) dict)"
    by (simp add: dict_get_def)
  ultimately have "dict_get (f_file_authors v) (path e) [] =
      foldl (\<lambda>d a. AList.update a (dict_get d a 0 + 1) d) [] ?T"
    using vf(2) init(3) by simp
  moreover have "dict_get (f_file_authors v) (path e) [] = by_author"
    using r(2) by (simp add: dict_get_def)
  ultimately have b: "by_author = map (\<lambda>a. (a, int (count_list ?T a))) ?F"
    by (simp only: tally)
  then have a: "authors e = ?F" using r(3) by (simp add: comp_def)
  have n: "by_author ! j = (authors e ! j, int (count_list ?T (authors e ! j)))"
    if "j < length (authors e)" for j
    using that unfolding a b by simp
  have len: "length by_author = length (authors e)" using r(3) by simp
  from r(4) len have i: "i < length (authors e)" by simp
  have "primary_owner e = Some (authors e ! i)" using r(5) n [OF i] by simp
  moreover have "\<forall>j < length (authors e).
      count_list ?T (authors e ! j) \<le> count_list ?T (authors e ! i)"
    using r(6) n i len by simp
  moreover have "\<forall>j < i. count_list ?T (authors e ! j) < count_list ?T (authors e ! i)"
    using r(7) n i by simp
  ultimately show ?thesis using a i by blast
qed

text \<open>The log of four commits above, as commits, and the touches of its two paths.\<close>

lemma primary_owner_of_touches_example:
  "analyze_change_frequency
     (\<lambda>args. Inr (git_output [''alice'', ''100'', ''a.py'', [], ''bob'', ''200'', ''a.py'',
        ''c.py'', [], ''carol'', ''300'', ''c.py'', [], ''carol'', ''400'', ''c.py''])) None =
     Inr [\<lparr>path = ''c.py'', change_count = 3, last_modified = 400,
           authors = [''bob'', ''carol''], primary_owner = Some ''carol''\<rparr>,
          \<lparr>path = ''a.py'', change_count = 2, last_modified = 200,
           authors = [''alice'', ''bob''], primary_owner = Some ''alice''\<rparr>] \<and>
   touch_authors ''a.py''
     [(''alice'', ''100'', [''a.py'']), (''bob'', ''200'', [''a.py'', ''c.py'']),
      (''carol'', ''300'', [''c.py'']), (''carol'', ''400'', [''c.py''])] = [''alice'', ''bob''] \<and>
   touch_authors ''c.py''
     [(''alice'', ''100'', [''a.py'']), (''bob'', ''200'', [''a.py'', ''c.py'']),
      (''carol'', ''300'', [''c.py'']), (''carol'', ''400'', [''c.py''])] =
     [''bob'', ''carol'', ''carol'']"
  by code_simp

text \<open>
  Claim C7. The loop tells a commit from the next by the blank line between them, and git
  prints no blank line after a commit that lists no file (a merge). On the log of five
  commits, a merge by bob, alice touching \<^verbatim>\<open>a.py\<close>, a merge by bob, alice touching
  \<^verbatim>\<open>a.py\<close> and carol touching \<^verbatim>\<open>a.py\<close>, the loop takes alice's name, her timestamp and
  \<^verbatim>\<open>a.py\<close> for three files of bob's commit. The author with the most touches of \<^verbatim>\<open>a.py\<close> is
  alice, with two; the function returns bob, who never touched it, as its primary owner, and
  alice is not among its authors.
\<close>

theorem primary_owner_never_touched_path:
  "analyze_change_frequency
     (\<lambda>args. if args = [''log'', ''--name-only'', ''--pretty=format:%an%n%at'']
              then Inr (git_output [''bob'', ''400'', ''alice'', ''300'', ''a.py'', [],
                     ''bob'', ''200'', ''alice'', ''100'', ''a.py'', [], ''carol'', ''50'', ''a.py''])
              else Inl (RuntimeError [])) None =
   Inr [\<lparr>path = ''a.py'', change_count = 3, last_modified = 400,
           authors = [''bob'', ''carol''], primary_owner = Some ''bob''\<rparr>,
        \<lparr>path = ''alice'', change_count = 2, last_modified = 400,
           authors = [''bob''], primary_owner = Some ''bob''\<rparr>,
        \<lparr>path = ''300'', change_count = 1, last_modified = 400,
           authors = [''bob''], primary_owner = Some ''bob''\<rparr>,
        \<lparr>path = ''100'', change_count = 1, last_modified = 200,
           authors = [''bob''], primary_owner = Some ''bob''\<rparr>]"
  by code_simp

section \<open>Properties of the commit timeline\<close>

lemma comprehension_Inr:
  "comprehension f xs = Inr ys \<Longrightarrow> list_all2 (\<lambda>x y. f x = Inr y) xs ys"
  by (induction xs arbitrary: ys) (auto split: sum.splits)

lemma comprehension_source:
  "comprehension f xs = Inr ys \<Longrightarrow> y \<in> set ys \<Longrightarrow> \<exists>x \<in> set xs. f x = Inr y"
  by (induction xs arbitrary: ys) (auto split: sum.splits)

lemma timeline_step_props:
  assumes "timeline_step u p d0 t = Inr d" "distinct (map fst d0)" "\<forall>kc \<in> set d0. 1 \<le> snd kc"
  shows "distinct (map fst d) \<and> sum_list (map snd d) = sum_list (map snd d0) + 1 \<and>
         (\<forall>kc \<in> set d. 1 \<le> snd kc) \<and>
         (\<exists>k. format_time_period u t p = Inr k \<and> fst ` set d = insert k (fst ` set d0))"
proof -
  from assms(1) obtain k where k: "format_time_period u t p = Inr k"
    "d = AList.update k (dict_get d0 k 0 + 1) d0"
    by (auto simp: timeline_step_def split: sum.splits)
  have pos: "0 \<le> dict_get d0 k 0"
  proof (cases "map_of d0 k")
    case None
    then show ?thesis by (simp add: dict_get_def)
  next
    case (Some n)
    then have "(k, n) \<in> set d0" by (rule map_of_SomeD)
    with assms(3) Some show ?thesis by (force simp: dict_get_def)
  qed
  have "sum_list (map snd d) = sum_list (map snd d0) + 1"
    using sum_list_update [OF assms(2), of "\<lambda>x. x" k "dict_get d0 k 0 + 1"] k(2)
    by (simp add: dict_get_def split: option.splits)
  moreover have "\<forall>kc \<in> set d. 1 \<le> snd kc"
    using set_update_subset [of k "dict_get d0 k 0 + 1" d0] assms(3) pos k(2) by fastforce
  moreover have "fst ` set d = insert k (fst ` set d0)"
    using dom_update [of k "dict_get d0 k 0 + 1" d0] k(2)
    by (simp add: dom_map_of_conv_image_fst)
  ultimately show ?thesis using k assms(2) by (simp add: distinct_update)
qed

lemma timeline_loop_props:
  assumes "for_loop (timeline_step u p) ts d0 = Inr d" "distinct (map fst d0)"
    "\<forall>kc \<in> set d0. 1 \<le> snd kc"
  shows "distinct (map fst d) \<and>
         sum_list (map snd d) = sum_list (map snd d0) + int (length ts) \<and>
         (\<forall>kc \<in> set d. 1 \<le> snd kc) \<and>
         fst ` set d \<subseteq> fst ` set d0 \<union> {k. \<exists>t \<in> set ts. format_time_period u t p = Inr k}"
  using assms
proof (induction ts arbitrary: d0)
  case Nil
  then show ?case by simp
next
  case (Cons t ts)
  from Cons.prems(1) obtain d1 where s: "timeline_step u p d0 t = Inr d1"
    and l: "for_loop (timeline_step u p) ts d1 = Inr d"
    by (auto split: sum.splits)
  note p1 = timeline_step_props [OF s Cons.prems(2,3)]
  from p1 have dd1: "distinct (map fst d1)" and c1: "\<forall>kc \<in> set d1. 1 \<le> snd kc" by simp_all
  note ih = Cons.IH [OF l dd1 c1]
  from p1 obtain k where k: "format_time_period u t p = Inr k"
    "fst ` set d1 = insert k (fst ` set d0)" by blast
  have "fst ` set d \<subseteq> fst ` set d0 \<union> {k. \<exists>t \<in> set (t # ts). format_time_period u t p = Inr k}"
    using ih k by auto
  with ih p1 show ?case by simp
qed

text \<open>
  Claim C5. Whatever the period, when \<^verbatim>\<open>analyze_commit_history_timeline\<close> returns a
  timeline for the output of the history query: the counts add up to the number of commits
  (the non-blank lines of the output), no key occurs twice, every key has a count of at
  least 1, and every key is the period key of a timestamp of the output.
\<close>

theorem timeline_counts:
  assumes "run_git (timeline_args options) = Inr output"
    and "analyze_commit_history_timeline run_git utcoffset period options = Inr timeline"
  shows "sum_list (map snd timeline) =
           int (length (filter (\<lambda>line. strip line \<noteq> []) (splitlines output))) \<and>
         distinct (map fst timeline) \<and>
         (\<forall>kc \<in> set timeline. 1 \<le> snd kc \<and>
            (\<exists>line \<in> set (splitlines output). \<exists>t.
               strip line \<noteq> [] \<and> py_int (strip line) = Inr t \<and>
               format_time_period utcoffset t period = Inr (fst kc)))"
proof -
  let ?lines = "filter (\<lambda>line. strip line \<noteq> []) (splitlines output)"
  from assms obtain ts where ts: "comprehension (\<lambda>line. py_int (strip line)) ?lines = Inr ts"
    and l: "for_loop (timeline_step utcoffset period) ts [] = Inr timeline"
    by (auto simp: analyze_commit_history_timeline_def split: sum.splits)
  note rel = comprehension_Inr [OF ts]
  then have len: "length ts = length ?lines" by (simp add: list_all2_lengthD)
  have src: "\<exists>line \<in> set (splitlines output). strip line \<noteq> [] \<and> py_int (strip line) = Inr t"
    if "t \<in> set ts" for t
  proof -
    from comprehension_source [OF ts that]
    obtain line where "line \<in> set ?lines" "py_int (strip line) = Inr t"
      by auto
    then show ?thesis by auto
  qed
  note p = timeline_loop_props [OF l]
  have "\<exists>line \<in> set (splitlines output). \<exists>t. strip line \<noteq> [] \<and> py_int (strip line) = Inr t \<and>
               format_time_period utcoffset t period = Inr (fst kc)"
    if "kc \<in> set timeline" for kc
  proof -
    from that p obtain t where "t \<in> set ts" "format_time_period utcoffset t period = Inr (fst kc)"
      by auto
    with src [of t] show ?thesis by blast
  qed
  with p len show ?thesis by simp
qed

text \<open>
  The theorem on three commits, two of them on 2021-01-01 and one on 2021-02-01 (UTC): the
  counts 2 and 1 add up to 3.
\<close>

theorem timeline_counts_witness:
  "analyze_commit_history_timeline
     (\<lambda>args. Inr (git_output [''1609459200'', ''1609459300'', '' 1612137600 '', []]))
     (\<lambda>t. 0) DAY default_options = Inr [(''2021-01-01'', 2), (''2021-02-01'', 1)] \<and>
   sum_list (map snd [(''2021-01-01'', 2), (''2021-02-01'', 1 :: int)]) =
     int (length (filter (\<lambda>line. strip line \<noteq> [])
       (splitlines (git_output [''1609459200'', ''1609459300'', '' 1612137600 '', []])))) \<and>
   int (length (filter (\<lambda>line. strip line \<noteq> [])
       (splitlines (git_output [''1609459200'', ''1609459300'', '' 1612137600 '', []])))) = 3"
proof -
  let ?git = "\<lambda>args :: string list.
    (Inr (git_output [''1609459200'', ''1609459300'', '' 1612137600 '', []]) :: error + string)"
  have r: "analyze_commit_history_timeline ?git (\<lambda>t. 0) DAY default_options =
      Inr [(''2021-01-01'', 2), (''2021-02-01'', 1)]"
    by code_simp
  have o: "?git (timeline_args default_options) =
      Inr (git_output [''1609459200'', ''1609459300'', '' 1612137600 '', []])"
    by simp
  from timeline_counts [OF o r] r show ?thesis by simp
qed

text \<open>
  Claim C1. The week key pairs the ISO week number with the calendar year \<^verbatim>\<open>dt.year\<close>, not
  with the ISO year. Midnight of 2021-01-01 (UTC) lies in ISO week 53 of 2020; both
  implementations give the key \<^verbatim>\<open>2021-W53\<close>. In the same way 2024-12-30, which lies in ISO
  week 1 of 2025, gets the key \<^verbatim>\<open>2024-W01\<close> of 2024-01-01, a year earlier.
\<close>

theorem week_key_has_calendar_year:
  "fromtimestamp (\<lambda>t. 0) 1609459200 =
     Inr \<lparr>year = 2021, month = 1, day = 1, hour = 0, minute = 0, second = 0\<rparr> \<and>
   isocalendar \<lparr>year = 2021, month = 1, day = 1, hour = 0, minute = 0, second = 0\<rparr> =
     (2020, 53, 5) \<and>
   format_time_period (\<lambda>t. 0) 1609459200 WEEK = Inr ''2021-W53'' \<and>
   api_format_time_period (\<lambda>t. 0) 1609459200 ''week'' = Inr ''2021-W53'' \<and>
   format_time_period (\<lambda>t. 0) 1735516800 WEEK = Inr ''2024-W01'' \<and>
   format_time_period (\<lambda>t. 0) 1704067200 WEEK = Inr ''2024-W01''"
  by code_simp

section \<open>Properties of the code churn\<close>

lemma churn_step_blank: "strip line = [] \<Longrightarrow> churn_step cc line = cc"
  by (simp add: churn_step_def)

lemma foldl_churn_step_filter:
  "foldl churn_step cc ls = foldl churn_step cc (filter (\<lambda>line. strip line \<noteq> []) ls)"
  by (induction ls arbitrary: cc) (simp_all add: churn_step_blank)

lemma churn_step_path:
  assumes "strip line \<noteq> []"
  shows "snd (churn_step (churn, Some c) line) = Some c \<and>
         (case map_of (fst (churn_step (churn, Some c) line)) p of
            None \<Rightarrow> 0 | Some metrics \<Rightarrow> m_change_count metrics) =
         (case map_of churn p of None \<Rightarrow> 0 | Some metrics \<Rightarrow> m_change_count metrics)
           + (if line = p then 1 else 0)"
  using assms
  by (auto simp: churn_step_def Let_def update_conv' dict_get_def new_metrics_def
      split: option.splits)

lemma foldl_churn_step_paths:
  assumes "\<forall>line \<in> set ls. strip line \<noteq> []"
  shows "snd (foldl churn_step (churn, Some c) ls) = Some c \<and>
         (case map_of (fst (foldl churn_step (churn, Some c) ls)) p of
            None \<Rightarrow> 0 | Some metrics \<Rightarrow> m_change_count metrics) =
         (case map_of churn p of None \<Rightarrow> 0 | Some metrics \<Rightarrow> m_change_count metrics)
           + int (count_list ls p)"
  using assms
proof (induction ls arbitrary: churn)
  case Nil
  then show ?case by simp
next
  case (Cons l ls)
  obtain churn' where s: "churn_step (churn, Some c) l = (churn', Some c)"
    using churn_step_path [of l churn c p] Cons.prems by (cases "churn_step (churn, Some c) l") auto
  have "(case map_of churn' p of None \<Rightarrow> 0 | Some metrics \<Rightarrow> m_change_count metrics) =
      (case map_of churn p of None \<Rightarrow> 0 | Some metrics \<Rightarrow> m_change_count metrics)
        + (if l = p then 1 else 0)"
    using churn_step_path [of l churn c p] Cons.prems s by simp
  moreover note Cons.IH [of churn']
  ultimately show ?case using Cons.prems s by simp
qed

lemma merge_step_count:
  "(case map_of (merge_step churn e) p of None \<Rightarrow> 0 | Some metrics \<Rightarrow> m_change_count metrics) =
   (case map_of churn p of None \<Rightarrow> (0::int) | Some metrics \<Rightarrow> m_change_count metrics)"
  by (auto simp: merge_step_def update_conv' split: option.splits)

lemma foldl_merge_step_count:
  "(case map_of (foldl merge_step churn es) p of None \<Rightarrow> 0 | Some metrics \<Rightarrow> m_change_count metrics) =
   (case map_of churn p of None \<Rightarrow> (0::int) | Some metrics \<Rightarrow> m_change_count metrics)"
  by (induction es arbitrary: churn) (simp_all add: merge_step_count)

lemma count_list_concat_events:
  assumes "p \<notin> fst ` set events"
  shows "count_list (concat (map (\<lambda>ev. fst ev # snd ev) events)) p =
         sum_list (map (\<lambda>ev. count_list (snd ev) p) events)"
  using assms by (induction events) auto

lemma count_list_distinct: "distinct xs \<Longrightarrow> count_list xs x = (if x \<in> set xs then 1 else 0)"
  by (induction xs) auto

lemma sum_count_distinct:
  assumes "\<forall>ev \<in> set events. distinct (snd ev)"
  shows "sum_list (map (\<lambda>ev. count_list (snd ev) p) events) =
         length (filter (\<lambda>ev. p \<in> set (snd ev)) events)"
  using assms by (induction events) (auto simp: count_list_distinct)

lemma raw_pass_count:
  assumes "filter (\<lambda>line. strip line \<noteq> []) ls = concat (map (\<lambda>ev. fst ev # snd ev) events)"
    and "p \<notin> fst ` set events"
  shows "(case map_of (fst (foldl churn_step ([], None) ls)) p of
            None \<Rightarrow> 0 | Some metrics \<Rightarrow> m_change_count metrics) =
         int (sum_list (map (\<lambda>ev. count_list (snd ev) p) events))"
proof (cases events)
  case Nil
  with assms(1) have "filter (\<lambda>line. strip line \<noteq> []) ls = []" by simp
  then have "foldl churn_step ([], None) ls = ([], None)"
    using foldl_churn_step_filter [of "([], None)" ls] by simp
  with Nil show ?thesis by simp
next
  case (Cons ev evs)
  define rest where "rest = snd ev @ concat (map (\<lambda>ev. fst ev # snd ev) evs)"
  from Cons assms(1) have l: "filter (\<lambda>line. strip line \<noteq> []) ls = fst ev # rest"
    by (simp add: rest_def)
  have "\<forall>line \<in> set (filter (\<lambda>line. strip line \<noteq> []) ls). strip line \<noteq> []" by simp
  then have nb: "\<forall>line \<in> set (fst ev # rest). strip line \<noteq> []" unfolding l .
  then have nb1: "strip (fst ev) \<noteq> []" and nbr: "\<forall>line \<in> set rest. strip line \<noteq> []"
    by simp_all
  have "foldl churn_step ([], None) ls = foldl churn_step ([], None) (fst ev # rest)"
    using foldl_churn_step_filter [of "([], None)" ls] unfolding l .
  also have "\<dots> = foldl churn_step ([], Some (fst ev)) rest"
    using nb1 by (simp add: churn_step_def)
  finally have f: "foldl churn_step ([], None) ls = foldl churn_step ([], Some (fst ev)) rest" .
  have "(case map_of (fst (foldl churn_step ([], Some (fst ev)) rest)) p of
            None \<Rightarrow> 0 | Some metrics \<Rightarrow> m_change_count metrics) = int (count_list rest p)"
    using foldl_churn_step_paths [OF nbr, of "[]" "fst ev" p] by simp
  moreover have "count_list rest p = count_list (concat (map (\<lambda>ev. fst ev # snd ev) events)) p"
    using assms(2) unfolding Cons rest_def by auto
  moreover have "count_list (concat (map (\<lambda>ev. fst ev # snd ev) events)) p =
      sum_list (map (\<lambda>ev. count_list (snd ev) p) events)"
    using assms(2) by (rule count_list_concat_events)
  ultimately show ?thesis unfolding f by simp
qed

text \<open>
  Claim C6, as the code has it. Let the non-blank lines of the log be, commit after commit,
  the commit's hash line followed by the paths it touched. For a path \<open>p\<close> that is not
  itself one of the hash lines, the \<^verbatim>\<open>change_count\<close> of \<open>p\<close> (0 when \<open>p\<close> is no key) is
  the number of times \<open>p\<close> is listed, over all commits; it is the number of commits that
  list \<open>p\<close> when no commit lists a path twice.
\<close>

theorem churn_change_count:
  assumes "run_git (churn_args options) = Inr output"
    and "filter (\<lambda>line. strip line \<noteq> []) (splitlines output) =
           concat (map (\<lambda>ev. fst ev # snd ev) events)"
    and "analyze_code_churn run_git frequency_data options = Inr churn"
    and "p \<notin> fst ` set events"
  shows "(case map_of churn p of None \<Rightarrow> 0 | Some metrics \<Rightarrow> m_change_count metrics) =
           int (sum_list (map (\<lambda>ev. count_list (snd ev) p) events)) \<and>
         ((\<forall>ev \<in> set events. distinct (snd ev)) \<longrightarrow>
            (case map_of churn p of None \<Rightarrow> 0 | Some metrics \<Rightarrow> m_change_count metrics) =
              int (length (filter (\<lambda>ev. p \<in> set (snd ev)) events)))"
proof -
  from assms(1,3) obtain es where c: "churn = foldl merge_step
      (fst (foldl churn_step ([], None) (splitlines output))) es"
    by (auto simp: analyze_code_churn_def split: sum.splits)
  have "(case map_of churn p of None \<Rightarrow> 0 | Some metrics \<Rightarrow> m_change_count metrics) =
      int (sum_list (map (\<lambda>ev. count_list (snd ev) p) events))"
    unfolding c foldl_merge_step_count by (rule raw_pass_count [OF assms(2,4)])
  then show ?thesis by (simp add: sum_count_distinct)
qed

text \<open>
  The theorem on two commits, the first touching \<^verbatim>\<open>a.py\<close> and \<^verbatim>\<open>b.py\<close>, the second
  \<^verbatim>\<open>a.py\<close>: the count of \<^verbatim>\<open>a.py\<close> is 2.
\<close>

theorem churn_change_count_witness:
  "filter (\<lambda>line. strip line \<noteq> [])
     (splitlines (git_output [''commit1'', ''a.py'', ''b.py'', [], ''commit2'', ''a.py''])) =
     concat (map (\<lambda>ev. fst ev # snd ev)
       [(''commit1'', [''a.py'', ''b.py'']), (''commit2'', [''a.py''])]) \<and>
   (case map_of
      [(''a.py'', \<lparr>m_change_count = 2, m_commits = {''commit1''}, m_last_modified = None,
          m_authors = None, m_primary_owner = None\<rparr>),
       (''b.py'', \<lparr>m_change_count = 1, m_commits = {''commit1''}, m_last_modified = None,
          m_authors = None, m_primary_owner = None\<rparr>),
       (''commit2'', \<lparr>m_change_count = 1, m_commits = {''commit1''}, m_last_modified = None,
          m_authors = None, m_primary_owner = None\<rparr>)] ''a.py'' of
      None \<Rightarrow> 0 | Some metrics \<Rightarrow> m_change_count metrics) =
     int (length (filter (\<lambda>ev. ''a.py'' \<in> set (snd ev))
       [(''commit1'', [''a.py'', ''b.py'']), (''commit2'', [''a.py''])])) \<and>
   int (length (filter (\<lambda>ev. ''a.py'' \<in> set (snd ev))
       [(''commit1'', [''a.py'', ''b.py'']), (''commit2'', [''a.py''])])) = 2"
proof -
  let ?out = "git_output [''commit1'', ''a.py'', ''b.py'', [], ''commit2'', ''a.py'']"
  let ?git = "\<lambda>args :: string list. (Inr ?out :: error + string)"
  let ?events = "[(''commit1'', [''a.py'', ''b.py'']), (''commit2'', [''a.py''])]"
  have l: "filter (\<lambda>line. strip line \<noteq> []) (splitlines ?out) =
      concat (map (\<lambda>ev. fst ev # snd ev) ?events)"
    by code_simp
  have r: "analyze_code_churn ?git (Inr []) default_options =
     Inr [(''a.py'', \<lparr>m_change_count = 2, m_commits = {''commit1''}, m_last_modified = None,
            m_authors = None, m_primary_owner = None\<rparr>),
          (''b.py'', \<lparr>m_change_count = 1, m_commits = {''commit1''}, m_last_modified = None,
            m_authors = None, m_primary_owner = None\<rparr>),
          (''commit2'', \<lparr>m_change_count = 1, m_commits = {''commit1''}, m_last_modified = None,
            m_authors = None, m_primary_owner = None\<rparr>)]"
    by code_simp
  have o: "?git (churn_args default_options) = Inr ?out" by simp
  have p: "''a.py'' \<notin> fst ` set ?events" by simp
  have d: "\<forall>ev \<in> set ?events. distinct (snd ev)" by simp
  from churn_change_count [OF o l r p] d l show ?thesis by simp
qed

text \<open>
  Against claim C6 as stated: a log whose single commit lists \<^verbatim>\<open>a.py\<close> twice gives
  \<^verbatim>\<open>a.py\<close> the \<^verbatim>\<open>change_count\<close> 2, with one commit in \<^verbatim>\<open>commits\<close>.
\<close>

theorem churn_double_count_counterexample:
  "analyze_code_churn (\<lambda>args. Inr (git_output [''commit1'', ''a.py'', ''a.py'']))
     (Inr [\<lparr>path = ''a.py'', change_count = 2, last_modified = 100, authors = [''alice''],
             primary_owner = Some ''alice''\<rparr>])
     default_options =
   Inr [(''a.py'', \<lparr>m_change_count = 2, m_commits = {''commit1''},
           m_last_modified = Some 100, m_authors = Some [''alice''],
           m_primary_owner = Some (Some ''alice'')\<rparr>)]"
  by code_simp

text \<open>
  Claim C10. The loop never resets \<^verbatim>\<open>current_commit\<close>, so the hash line of every commit
  but the first is taken for a file path. On a log of two commits, the first touching
  \<^verbatim>\<open>a.py\<close> and the second \<^verbatim>\<open>b.py\<close>, the returned dictionary has the key \<^verbatim>\<open>commit2\<close>
  beside the two paths, and every entry names the first commit only.
\<close>

theorem churn_keys_include_commit_hash:
  "analyze_code_churn
     (\<lambda>args. if args = [''log'', ''--name-only'', ''--pretty=format:%H'']
              then Inr (git_output [''commit1'', ''a.py'', [], ''commit2'', ''b.py''])
              else Inl (RuntimeError []))
     (Inr [\<lparr>path = ''a.py'', change_count = 1, last_modified = 100, authors = [''alice''],
             primary_owner = Some ''alice''\<rparr>,
           \<lparr>path = ''b.py'', change_count = 1, last_modified = 200, authors = [''bob''],
             primary_owner = Some ''bob''\<rparr>])
     default_options =
   Inr [(''a.py'', \<lparr>m_change_count = 1, m_commits = {''commit1''}, m_last_modified = Some 100,
           m_authors = Some [''alice''], m_primary_owner = Some (Some ''alice'')\<rparr>),
        (''commit2'', \<lparr>m_change_count = 1, m_commits = {''commit1''}, m_last_modified = None,
           m_authors = None, m_primary_owner = None\<rparr>),
        (''b.py'', \<lparr>m_change_count = 1, m_commits = {''commit1''}, m_last_modified = Some 200,
           m_authors = Some [''bob''], m_primary_owner = Some (Some ''bob'')\<rparr>)]"
  by code_simp

section \<open>The query window is not validated\<close>

lemma foldl_merge_step_Nil: "foldl merge_step [] es = []"
  by (induction es) (simp_all add: merge_step_def)

lemma foldl_churn_step_blank:
  "\<forall>line \<in> set ls. strip line = [] \<Longrightarrow> foldl churn_step cc ls = cc"
  by (induction ls) (simp_all add: churn_step_def)

text \<open>
  Claim C2, as the code has it. A window whose \<^verbatim>\<open>since_date\<close> lies after its
  \<^verbatim>\<open>until_date\<close> is not rejected: \<^verbatim>\<open>analyze_commit_history_timeline\<close> and
  \<^verbatim>\<open>analyze_code_churn\<close> issue their history query, and when the query returns no commit
  they return the empty mapping. Both bounds, when not 0, are handed to git as they are.
\<close>

theorem window_not_validated:
  assumes "since_date options = Some s" and "until_date options = Some u" and "u < s"
    and "run_git (timeline_args options) = Inr output"
    and "run_git (churn_args options) = Inr output'"
    and "filter (\<lambda>line. strip line \<noteq> []) (splitlines output) = []"
    and "filter (\<lambda>line. strip line \<noteq> []) (splitlines output') = []"
  shows "analyze_commit_history_timeline run_git utcoffset period options = Inr [] \<and>
         analyze_code_churn run_git (Inr entries) options = Inr [] \<and>
         (s \<noteq> 0 \<and> u \<noteq> 0 \<longrightarrow>
            (\<exists>pre post. timeline_args options =
               pre @ [''--since'', CHR ''@'' # str_int s, ''--until'', CHR ''@'' # str_int u] @ post) \<and>
            (\<exists>pre post. churn_args options =
               pre @ [''--since'', CHR ''@'' # str_int s, ''--until'', CHR ''@'' # str_int u] @ post))"
proof -
  have t: "analyze_commit_history_timeline run_git utcoffset period options = Inr []"
    using assms(4,6) by (simp add: analyze_commit_history_timeline_def)
  have "\<forall>line \<in> set (splitlines output'). strip line = []"
    using assms(7) by (simp add: filter_empty_conv)
  then have "foldl churn_step ([], None) (splitlines output') = ([], None)"
    by (rule foldl_churn_step_blank)
  then have c: "analyze_code_churn run_git (Inr entries) options = Inr []"
    using assms(5) by (simp add: analyze_code_churn_def foldl_merge_step_Nil)
  have a: "timeline_args options =
      ([''log'', ''--pretty=format:%at'']
         @ (if include_merges options then [] else [''--no-merges''])
         @ str_flag ''--author'' (author_filter options))
      @ [''--since'', CHR ''@'' # str_int s, ''--until'', CHR ''@'' # str_int u]
      @ (int_flag ''--max-count'' [] (max_commits options)
         @ int_flag ''--skip'' [] (skip_commits options)
         @ str_flag ''--'' (path_filter options))"
    if "s \<noteq> 0" "u \<noteq> 0"
    using that assms(1,2) by (simp add: timeline_args_def int_flag_def)
  have b: "churn_args options =
      ([''log'', ''--name-only'', ''--pretty=format:%H'']
         @ (if include_merges options then [] else [''--no-merges''])
         @ str_flag ''--author'' (author_filter options))
      @ [''--since'', CHR ''@'' # str_int s, ''--until'', CHR ''@'' # str_int u]
      @ (int_flag ''--max-count'' [] (max_commits options)
         @ str_flag ''--'' (path_filter options))"
    if "s \<noteq> 0" "u \<noteq> 0"
    using that assms(1,2) by (simp add: churn_args_def int_flag_def)
  from t c a b show ?thesis by blast
qed

text \<open>The theorem on the window from 20 to 10, with a git that finds no commit.\<close>

theorem window_not_validated_witness:
  "since_date (default_options\<lparr>since_date := Some 20, until_date := Some 10\<rparr>) = Some 20 \<and>
   until_date (default_options\<lparr>since_date := Some 20, until_date := Some 10\<rparr>) = Some 10 \<and>
   analyze_commit_history_timeline (\<lambda>args. Inr []) (\<lambda>t. 0) WEEK
     (default_options\<lparr>since_date := Some 20, until_date := Some 10\<rparr>) = Inr [] \<and>
   analyze_code_churn (\<lambda>args. Inr []) (Inr [])
     (default_options\<lparr>since_date := Some 20, until_date := Some 10\<rparr>) = Inr [] \<and>
   (\<exists>pre post. timeline_args (default_options\<lparr>since_date := Some 20, until_date := Some 10\<rparr>) =
      pre @ [''--since'', CHR ''@'' # str_int 20, ''--until'', CHR ''@'' # str_int 10] @ post)"
proof -
  let ?options = "default_options\<lparr>since_date := Some 20, until_date := Some 10\<rparr>"
  let ?git = "\<lambda>args :: string list. (Inr [] :: error + string)"
  have s: "since_date ?options = Some 20" and u: "until_date ?options = Some 10" by simp_all
  have o: "?git (timeline_args ?options) = Inr []" "?git (churn_args ?options) = Inr []"
    by simp_all
  have l: "filter (\<lambda>line. strip line \<noteq> []) (splitlines []) = []"
    by (simp add: splitlines_def)
  have "(10::int) < 20" by simp
  from window_not_validated [OF s u this o l l, of "\<lambda>t. 0" WEEK "[]"] s u
  show ?thesis by simp
qed

text \<open>
  Against claim C2 as stated: for the window from 1700000000 to 1600000000 the history
  query is issued with both bounds, and the empty answer of git is returned as the empty
  timeline.
\<close>

theorem window_not_validated_counterexample:
  "analyze_commit_history_timeline
     (\<lambda>args. if args = [''log'', ''--pretty=format:%at'', ''--since'', ''@1700000000'',
                         ''--until'', ''@1600000000'']
              then Inr [] else Inl (RuntimeError ''unexpected query''))
     (\<lambda>t. 0) DAY
     (default_options\<lparr>since_date := Some 1700000000, until_date := Some 1600000000\<rparr>) = Inr []"
  by code_simp

section \<open>Properties of the file evolution and the hotspots\<close>

text \<open>
  Claim C3. The loop does not return one entry for each commit of the log. On the log git
  prints for two commits of \<^verbatim>\<open>x\<close>, each with a patch, it closes the first entry at the
  \<^verbatim>\<open>diff --git\<close> line of the second commit, takes that line for the second commit's hash and
  the three lines after it for author, email and timestamp, and \<^verbatim>\<open>int\<close> raises
  \<^verbatim>\<open>ValueError\<close>: no entry is returned. A log of one commit without diff lines gives no
  entry, since the final entry is appended only when \<^verbatim>\<open>current_diff\<close> is not empty; a log
  of two such commits gives one entry.
\<close>

theorem evolution_misses_commits:
  "analyze_file_evolution
     (\<lambda>args. if args = [''log'', ''--follow'', ''--patch'',
                         ''--pretty=format:%H%n%an%n%ae%n%at%n%s'', ''--'', ''x'']
              then Inr (git_output
                [''commit2'', ''bob'', ''bob@example.org'', ''200'', ''edit x'',
                 ''diff --git a/x b/x'', ''index ce01362..94954ab 100644'', ''--- a/x'',
                 ''+++ b/x'', ''@@ -1 +1,2 @@'', '' hello'', ''+world'', [],
                 ''commit1'', ''alice'', ''alice@example.org'', ''100'', ''add x'',
                 ''diff --git a/x b/x'', ''new file mode 100644'', ''index 0000000..ce01362'',
                 ''--- /dev/null'', ''+++ b/x'', ''@@ -0,0 +1 @@'', ''+hello''])
              else Inl (RuntimeError []))
     ''x'' default_options = Inl (ValueError ''--- /dev/null'') \<and>
   analyze_file_evolution
     (\<lambda>args. Inr (git_output [''commit1'', ''alice'', ''alice@example.org'', ''100'',
        ''create x'']))
     ''x'' default_options = Inr [] \<and>
   analyze_file_evolution
     (\<lambda>args. Inr (git_output [''commit2'', ''bob'', ''bob@example.org'', ''200'', ''second'',
        ''commit1'', ''alice'', ''alice@example.org'', ''100'', ''first'']))
     ''x'' default_options =
     Inr [\<lparr>commit_hash = ''commit2'', author = Some ''bob'', email = Some ''bob@example.org'',
           timestamp = Some 200, message = Some ''second'', lines_added = 0,
           lines_removed = 0\<rparr>]"
  by code_simp

text \<open>
  Claim C4. The filter looks for \<^verbatim>\<open>/node_modules/\<close> and \<^verbatim>\<open>/vendor/\<close> with the leading
  slash, which a path relative to the repository root does not have when the directory is
  at the root: \<^verbatim>\<open>node_modules/a.js\<close> and \<^verbatim>\<open>vendor/lib/a.go\<close> are returned as hotspots.
\<close>

theorem hotspot_in_root_node_modules:
  "api_analyze_hotspots
     (\<lambda>args. if args = [''log'', ''--name-only'', ''--pretty=format:%an%n%at'']
                then Inr (git_output [''alice'', ''100'', ''node_modules/a.js''])
              else if args = [''ls-files''] then Inr (git_output [''node_modules/a.js''])
              else if args = [''show'', ''HEAD:node_modules/a.js''] then Inr ''x''
              else Inl (RuntimeError [])) =
     Inr [\<lparr>file_path = ''node_modules/a.js'', churn_factor = 1, complexity = 1,
           hotspot_factor = 1 / 1000\<rparr>] \<and>
   analytics_analyze_hotspots
     (Some (\<lambda>args. if args = [''show'', ''HEAD:vendor/lib/a.go''] then Inr ''package a''
                    else Inl (RuntimeError [])))
     (Inr [\<lparr>path = ''vendor/lib/a.go'', change_count = 2, last_modified = 100,
             authors = [''alice''], primary_owner = Some ''alice''\<rparr>])
     (Inr [''vendor/lib/a.go'']) =
     Inr [\<lparr>file_path = ''vendor/lib/a.go'', churn_factor = 2, complexity = 1,
           hotspot_factor = 2 / 1000\<rparr>]"
proof -
  let ?git = "\<lambda>args. if args = [''log'', ''--name-only'', ''--pretty=format:%an%n%at'']
                then Inr (git_output [''alice'', ''100'', ''node_modules/a.js''])
              else if args = [''ls-files''] then Inr (git_output [''node_modules/a.js''])
              else if args = [''show'', ''HEAD:node_modules/a.js''] then Inr ''x''
              else Inl (RuntimeError [])"
  let ?show = "\<lambda>args. if args = [''show'', ''HEAD:vendor/lib/a.go'']
                then (Inr ''package a'' :: error + string) else Inl (RuntimeError [])"
  have f: "analyze_change_frequency ?git None =
      Inr [\<lparr>path = ''node_modules/a.js'', change_count = 1, last_modified = 100,
             authors = [''alice''], primary_owner = Some ''alice''\<rparr>]"
    by code_simp
  have t: "list_tracked ?git = Inr [''node_modules/a.js'']"
    by code_simp
  have s: "api_is_source_file ''node_modules/a.js''"
    "analytics_is_source_file ''vendor/lib/a.go''"
    by code_simp+
  have c: "?git [''show'', ''HEAD:'' @ ''node_modules/a.js''] = Inr ''x''"
    "?show [''show'', ''HEAD:'' @ ''vendor/lib/a.go''] = Inr ''package a''"
    by simp_all
  have l: "splitlines ''x'' = [''x'']" "splitlines ''package a'' = [''package a'']"
    by code_simp+
  have 1: "api_analyze_hotspots ?git =
     Inr [\<lparr>file_path = ''node_modules/a.js'', churn_factor = 1, complexity = 1,
           hotspot_factor = 1 / 1000\<rparr>]"
    unfolding api_analyze_hotspots_def f t
    by (simp add: s api_hotspot_def c l make_hotspot_def List.map_filter_simps)
  have 2: "analytics_analyze_hotspots (Some ?show)
     (Inr [\<lparr>path = ''vendor/lib/a.go'', change_count = 2, last_modified = 100,
             authors = [''alice''], primary_owner = Some ''alice''\<rparr>])
     (Inr [''vendor/lib/a.go'']) =
     Inr [\<lparr>file_path = ''vendor/lib/a.go'', churn_factor = 2, complexity = 1,
           hotspot_factor = 2 / 1000\<rparr>]"
    unfolding analytics_analyze_hotspots_def
    by (simp add: s analytics_hotspot_def c l make_hotspot_def List.map_filter_simps)
  from 1 2 show ?thesis by (rule conjI)
qed

section \<open>Further properties\<close>

text \<open>
  The timeline is returned whenever git answers and every non-blank line of its answer is
  a timestamp that \<^verbatim>\<open>fromtimestamp\<close> accepts.
\<close>

lemma comprehension_total:
  "\<forall>x \<in> set xs. \<exists>y. f x = Inr y \<Longrightarrow> \<exists>ys. comprehension f xs = Inr ys"
  by (induction xs) auto

lemma for_loop_total:
  "\<forall>s. \<forall>x \<in> set xs. \<exists>s'. body s x = Inr s' \<Longrightarrow> \<exists>s'. for_loop body xs s = Inr s'"
proof (induction xs arbitrary: s)
  case Nil
  then show ?case by simp
next
  case (Cons x xs)
  then obtain s1 where "body s x = Inr s1" by fastforce
  moreover from Cons obtain s2 where "for_loop body xs s1 = Inr s2" by fastforce
  ultimately show ?case by simp
qed

lemma timeline_returns:
  assumes "run_git (timeline_args options) = Inr output"
    and "\<forall>line \<in> set (splitlines output). strip line \<noteq> [] \<longrightarrow>
           (\<exists>t dt. py_int (strip line) = Inr t \<and> fromtimestamp utcoffset t = Inr dt)"
  shows "\<exists>timeline. analyze_commit_history_timeline run_git utcoffset period options = Inr timeline"
proof -
  let ?lines = "filter (\<lambda>line. strip line \<noteq> []) (splitlines output)"
  have "\<forall>line \<in> set ?lines. \<exists>t. py_int (strip line) = Inr t"
    using assms(2) by auto
  then obtain ts where ts: "comprehension (\<lambda>line. py_int (strip line)) ?lines = Inr ts"
    using comprehension_total [of ?lines "\<lambda>line. py_int (strip line)"] by blast
  have "\<exists>dt. fromtimestamp utcoffset t = Inr dt" if "t \<in> set ts" for t
  proof -
    from comprehension_source [OF ts that] obtain line
      where "line \<in> set ?lines" "py_int (strip line) = Inr t" by blast
    with assms(2) show ?thesis by auto
  qed
  then have "\<forall>d. \<forall>t \<in> set ts. \<exists>d'. timeline_step utcoffset period d t = Inr d'"
    by (fastforce simp: timeline_step_def format_time_period_def split: sum.splits)
  from for_loop_total [OF this]
  obtain d where "for_loop (timeline_step utcoffset period) ts [] = Inr d" by blast
  with assms(1) ts show ?thesis by (simp add: analyze_commit_history_timeline_def)
qed

text \<open>
  The merge pass of \<^verbatim>\<open>analyze_code_churn\<close> adds no key and leaves \<^verbatim>\<open>change_count\<close> and
  \<^verbatim>\<open>commits\<close> of every key as the loop over the log left them.
\<close>

lemma update_present_keys:
  "map_of al k = Some w \<Longrightarrow> map fst (AList.update k v al) = map fst al"
  by (induction al) (auto split: if_splits)

lemma merge_step_frame:
  "map fst (merge_step churn e) = map fst churn \<and>
   map_option m_change_count (map_of (merge_step churn e) p) =
     map_option m_change_count (map_of churn p) \<and>
   map_option m_commits (map_of (merge_step churn e) p) =
     map_option m_commits (map_of churn p)"
  by (auto simp: merge_step_def update_present_keys update_conv' split: option.splits)

lemma merge_pass_frame:
  "map fst (foldl merge_step churn entries) = map fst churn \<and>
   map_option m_change_count (map_of (foldl merge_step churn entries) p) =
     map_option m_change_count (map_of churn p) \<and>
   map_option m_commits (map_of (foldl merge_step churn entries) p) =
     map_option m_commits (map_of churn p)"
  by (induction entries arbitrary: churn) (simp_all add: merge_step_frame)

text \<open>
  Every hotspot that \<^verbatim>\<open>analyze_hotspots\<close> of api.py returns has passed the filter and has a
  positive factor; so its path contains neither \<^verbatim>\<open>/node_modules/\<close> nor \<^verbatim>\<open>/vendor/\<close>,
  which excludes the vendored directories below the root.
\<close>

lemma make_hotspot_Some:
  "make_hotspot fp churn cplx = Some h \<Longrightarrow> file_path h = fp \<and> 0 < hotspot_factor h"
  by (auto simp: make_hotspot_def Let_def split: if_splits)

lemma api_hotspots_filtered:
  assumes "api_analyze_hotspots run_git = Inr hotspots" and "h \<in> set hotspots"
  shows "api_is_source_file (file_path h) \<and> 0 < hotspot_factor h"
proof -
  from assms(1) obtain frequency_data tracked_files where
    "hotspots = sort_key (\<lambda>h. - hotspot_factor h)
       (List.map_filter (api_hotspot run_git frequency_data)
          (filter api_is_source_file tracked_files))"
    by (auto simp: api_analyze_hotspots_def split: sum.splits)
  with assms(2) obtain fp where fp: "api_is_source_file fp"
    "api_hotspot run_git frequency_data fp = Some h"
    by (auto simp: List.map_filter_def)
  from fp(2) have "file_path h = fp \<and> 0 < hotspot_factor h"
    by (auto simp: api_hotspot_def split: option.splits dest: make_hotspot_Some)
  with fp(1) show ?thesis by simp
qed

lemma api_hotspots_exclude_nested:
  assumes "api_analyze_hotspots run_git = Inr hotspots" and "h \<in> set hotspots"
  shows "\<not> contains (file_path h) ''/node_modules/'' \<and> \<not> contains (file_path h) ''/vendor/''"
  using api_hotspots_filtered [OF assms] by (simp add: api_is_source_file_def Let_def)

end
